theory Spec2Isabelle
  imports Complex_Main "HOL-Library.FSet" "HOL-Library.Word"
begin

section \<open>Go values\<close>

text \<open>
  A Go \<^verbatim>\<open>interface{}\<close> value, as it occurs in parsed records and in the maps returned by
  the aggregator. \<^verbatim>\<open>float64\<close> is modelled by \<^typ>\<open>real\<close>: rounding, infinities and NaN
  are outside the model. \<^verbatim>\<open>int\<close> and \<^verbatim>\<open>int64\<close> are modelled by \<^typ>\<open>int\<close>. A Go map
  with string keys is a partial function; \<open>VOther\<close> stands for a value of any dynamic
  type that the type switches of the program do not name. A Go string is a sequence of
  bytes, here a list of 8-bit characters.
\<close>

datatype go_value =
    VString string
  | VFloat64 real
  | VInt int
  | VInt64 int
  | VBool bool
  | VNil
  | VMap "string \<Rightarrow> go_value option"
  | VSlice "go_value list"
  | VOther

type_synonym gomap = "string \<Rightarrow> go_value option"

text \<open>Go error values, and the run-time panic that the modelled code can raise.\<close>

datatype error =
    SyntaxError
  | UnmarshalTypeError
  | RegexpError string
  | UnsupportedFormatError string
  | LineTooLong
  | EOF
  | ReadError
  | Wrapped string error

datatype panic = NilMapWrite

section \<open>Functions of the Go standard library\<close>

text \<open>
  The program calls \<^verbatim>\<open>strconv\<close>, \<^verbatim>\<open>strings\<close>, \<^verbatim>\<open>encoding/json\<close> and \<^verbatim>\<open>regexp\<close>. Their
  code is not part of the repository; the definitions of this section model them on the
  inputs described with each of them.
\<close>

subsection \<open>strconv\<close>

definition is_digit :: "char \<Rightarrow> bool" where
  "is_digit c = (48 \<le> (of_char c :: nat) \<and> (of_char c :: nat) \<le> 57)"

definition digit_val :: "char \<Rightarrow> nat" where
  "digit_val c = of_char c - 48"

definition digit_char :: "nat \<Rightarrow> char" where
  "digit_char n = ''0123456789'' ! n"

primrec nat_of_digits :: "nat \<Rightarrow> string \<Rightarrow> nat" where
  "nat_of_digits acc [] = acc"
| "nat_of_digits acc (c # cs) = nat_of_digits (acc * 10 + digit_val c) cs"

function digits10 :: "nat \<Rightarrow> string" where
  "digits10 n =
     (if n < 10 then [digit_char n] else digits10 (n div 10) @ [digit_char (n mod 10)])"
  by pat_completeness auto
termination
  by (relation "measure id") auto

declare digits10.simps [simp del]

text \<open>\<^verbatim>\<open>strconv.Itoa\<close> and \<^verbatim>\<open>strconv.FormatInt(v, 10)\<close>: the decimal digits, with a sign.\<close>

definition Itoa :: "int \<Rightarrow> string" where
  "Itoa i = (if i < 0 then CHR ''-'' # digits10 (nat (- i)) else digits10 (nat i))"

definition FormatBool :: "bool \<Rightarrow> string" where
  "FormatBool b = (if b then ''true'' else ''false'')"

primrec frac_digits :: "nat \<Rightarrow> real \<Rightarrow> string" where
  "frac_digits 0 x = []"
| "frac_digits (Suc n) x =
     (if x = 0 then []
      else digit_char (nat \<lfloor>10 * x\<rfloor>) # frac_digits n (frac (10 * x)))"

text \<open>
  \<^verbatim>\<open>strconv.FormatFloat(v, 'f', -1, 64)\<close>: no exponent, and the fewest digits that read
  back as the same \<^verbatim>\<open>float64\<close>. In the model a number is its exact value, and the
  function gives the digits of its decimal expansion: the integer part, and a decimal
  point followed by the fractional digits only when the value is not integral; at most
  1100 fractional digits, more than a \<^verbatim>\<open>float64\<close> has. This is what Go prints for the
  \<^verbatim>\<open>float64\<close> nearest to a decimal number of at most 15 significant digits and of
  magnitude below \<open>2^53\<close>. It is not what Go prints elsewhere: Go prints \<^verbatim>\<open>-0\<close> for the
  negative zero, which the model does not have; for an integral value from \<open>2^53\<close> up it
  prints the shortest digits followed by zeros, not the digits of the integer; and for a
  \<^verbatim>\<open>float64\<close> that is not such a decimal number it prints at most 17 significant
  digits, not the expansion. Nothing below depends on the function at such values.
\<close>

definition FormatFloat :: "real \<Rightarrow> string" where
  "FormatFloat v =
     (if v < 0 then ''-'' else '''') @ digits10 (nat \<lfloor>\<bar>v\<bar>\<rfloor>) @
     (if frac \<bar>v\<bar> = 0 then '''' else CHR ''.'' # frac_digits 1100 (frac \<bar>v\<bar>))"

text \<open>
  \<^verbatim>\<open>strconv.ParseFloat(s, 64)\<close> on decimal literals: an optional sign, digits with an
  optional fraction, an optional decimal exponent. \<open>None\<close> is the error result. The
  special spellings that Go also accepts (infinities, NaN, hexadecimal literals) are
  outside the model, as is the range of \<^verbatim>\<open>float64\<close>.
\<close>

definition ParseFloat :: "string \<Rightarrow> real option" where
  "ParseFloat s =
     (let (neg, s1) = (case s of
                         [] \<Rightarrow> (False, s)
                       | c # r \<Rightarrow> if c = CHR ''-'' then (True, r)
                                 else if c = CHR ''+'' then (False, r) else (False, s));
          ip = takeWhile is_digit s1;
          s2 = dropWhile is_digit s1;
          (fp, s3) = (case s2 of
                        [] \<Rightarrow> ([], s2)
                      | c # r \<Rightarrow> if c = CHR ''.''
                                 then (takeWhile is_digit r, dropWhile is_digit r)
                                 else ([], s2));
          mant = real (nat_of_digits 0 (ip @ fp)) / 10 ^ length fp;
          sgn = (if neg then - 1 else 1)
      in if ip = [] \<and> fp = [] then None
         else (case s3 of
                 [] \<Rightarrow> Some (sgn * mant)
               | c # r \<Rightarrow>
                   if c = CHR ''e'' \<or> c = CHR ''E'' then
                     (let (eneg, r1) = (case r of
                                          [] \<Rightarrow> (False, r)
                                        | d # r' \<Rightarrow> if d = CHR ''-'' then (True, r')
                                                   else if d = CHR ''+'' then (False, r')
                                                   else (False, r))
                      in if r1 = [] \<or> \<not> list_all is_digit r1 then None
                         else if eneg then Some (sgn * mant / 10 ^ nat_of_digits 0 r1)
                         else Some (sgn * mant * 10 ^ nat_of_digits 0 r1))
                   else None))"

subsection \<open>strings\<close>

text \<open>\<^verbatim>\<open>strings.Split(s, sep)\<close> for a separator of one byte.\<close>

primrec Split :: "string \<Rightarrow> char \<Rightarrow> string list" where
  "Split [] sep = [[]]"
| "Split (c # cs) sep =
     (if c = sep then [] # Split cs sep
      else (case Split cs sep of [] \<Rightarrow> [[c]] | p # ps \<Rightarrow> (c # p) # ps))"

fun HasPrefix :: "string \<Rightarrow> string \<Rightarrow> bool" where
  "HasPrefix s [] = True"
| "HasPrefix [] (p # ps) = False"
| "HasPrefix (c # cs) (p # ps) = (c = p \<and> HasPrefix cs ps)"

text \<open>\<^verbatim>\<open>strings.Contains(s, substr)\<close>.\<close>

fun strings_Contains :: "string \<Rightarrow> string \<Rightarrow> bool" where
  "strings_Contains [] substr = HasPrefix [] substr"
| "strings_Contains (c # cs) substr =
     (HasPrefix (c # cs) substr \<or> strings_Contains cs substr)"

subsection \<open>encoding/json\<close>

text \<open>
  \<^verbatim>\<open>json.Unmarshal\<close> into a \<^verbatim>\<open>map[string]interface{}\<close>: a recursive-descent decoder of
  JSON text. Objects become maps (a repeated key keeps its last value), arrays slices,
  numbers \<^verbatim>\<open>float64\<close>, \<^verbatim>\<open>null\<close> the nil value. The model agrees with Go on texts of
  ASCII characters without the escape \<^verbatim>\<open>\u\<close>, whose numbers are decimal numbers of at
  most 15 significant digits within the range of \<^verbatim>\<open>float64\<close>. Elsewhere it does not:
  it rejects a string with the escape \<^verbatim>\<open>\u\<close>, which Go decodes; it keeps bytes that
  are not valid UTF-8, which Go replaces; it accepts a number outside the range of
  \<^verbatim>\<open>float64\<close>, which Go rejects; and it keeps the exact value of a number that Go rounds
  to the nearest \<^verbatim>\<open>float64\<close>. The properties that hold for every line take the parser
  as a parameter; the decoder is evaluated only at lines of the first sort. The decoder
  runs on fuel, one unit for each nested value or member; the length of the text is
  always enough, since each of them consumes a character.
\<close>

definition is_space :: "char \<Rightarrow> bool" where
  "is_space c = (c = CHR '' '' \<or> c = CHR 0x09 \<or> c = CHR 0x0A \<or> c = CHR 0x0D)"

definition skip_ws :: "string \<Rightarrow> string" where
  "skip_ws s = dropWhile is_space s"

definition unescape :: "char \<Rightarrow> char option" where
  "unescape e =
     (if e = CHR 0x22 then Some (CHR 0x22)
      else if e = CHR 0x5C then Some (CHR 0x5C)
      else if e = CHR ''/'' then Some (CHR ''/'')
      else if e = CHR ''b'' then Some (CHR 0x08)
      else if e = CHR ''f'' then Some (CHR 0x0C)
      else if e = CHR ''n'' then Some (CHR 0x0A)
      else if e = CHR ''r'' then Some (CHR 0x0D)
      else if e = CHR ''t'' then Some (CHR 0x09)
      else None)"

text \<open>The rest of a string after its opening quote: the decoded bytes and what follows.\<close>

fun decode_string :: "string \<Rightarrow> (string \<times> string) option" where
  "decode_string [] = None"
| "decode_string (c # r) =
     (if c = CHR 0x22 then Some ([], r)
      else if c = CHR 0x5C then
        (case r of
           [] \<Rightarrow> None
         | e # r' \<Rightarrow>
             (case unescape e of
                None \<Rightarrow> None
              | Some ch \<Rightarrow>
                  (case decode_string r' of
                     None \<Rightarrow> None
                   | Some (str, rest) \<Rightarrow> Some (ch # str, rest))))
      else if (of_char c :: nat) < 32 then None
      else (case decode_string r of
              None \<Rightarrow> None
            | Some (str, rest) \<Rightarrow> Some (c # str, rest)))"

definition decode_number :: "string \<Rightarrow> (real \<times> string) option" where
  "decode_number s =
     (let (neg, s1) = (case s of
                         [] \<Rightarrow> (False, s)
                       | c # r \<Rightarrow> if c = CHR ''-'' then (True, r) else (False, s));
          ip = takeWhile is_digit s1;
          s2 = dropWhile is_digit s1;
          sgn = (if neg then - 1 else 1)
      in if ip = [] \<or> (hd ip = CHR ''0'' \<and> tl ip \<noteq> []) then None
         else
           (case (case s2 of
                    [] \<Rightarrow> Some ([], s2)
                  | c # r \<Rightarrow>
                      if c = CHR ''.''
                      then (if takeWhile is_digit r = [] then None
                            else Some (takeWhile is_digit r, dropWhile is_digit r))
                      else Some ([], s2)) of
              None \<Rightarrow> None
            | Some (fp, s3) \<Rightarrow>
                (let mant = real (nat_of_digits 0 (ip @ fp)) / 10 ^ length fp
                 in case s3 of
                      [] \<Rightarrow> Some (sgn * mant, s3)
                    | c # r \<Rightarrow>
                        if c = CHR ''e'' \<or> c = CHR ''E'' then
                          (let (eneg, r1) = (case r of
                                               [] \<Rightarrow> (False, r)
                                             | d # r' \<Rightarrow>
                                                 if d = CHR ''-'' then (True, r')
                                                 else if d = CHR ''+'' then (False, r')
                                                 else (False, r));
                               ed = takeWhile is_digit r1;
                               s4 = dropWhile is_digit r1
                           in if ed = [] then None
                              else if eneg then Some (sgn * mant / 10 ^ nat_of_digits 0 ed, s4)
                              else Some (sgn * mant * 10 ^ nat_of_digits 0 ed, s4))
                        else Some (sgn * mant, s3))))"

definition literal :: "string \<Rightarrow> string \<Rightarrow> string option" where
  "literal w s = (if take (length w) s = w then Some (drop (length w) s) else None)"

fun decode_value :: "nat \<Rightarrow> string \<Rightarrow> (go_value \<times> string) option"
  and decode_members :: "nat \<Rightarrow> gomap \<Rightarrow> string \<Rightarrow> (gomap \<times> string) option"
  and decode_elements :: "nat \<Rightarrow> go_value list \<Rightarrow> string \<Rightarrow> (go_value list \<times> string) option"
where
  "decode_value 0 s = None"
| "decode_value (Suc n) s =
     (case skip_ws s of
        [] \<Rightarrow> None
      | c # r \<Rightarrow>
          if c = CHR ''{'' then
            (case skip_ws r of
               [] \<Rightarrow> None
             | d # r' \<Rightarrow>
                 if d = CHR ''}'' then Some (VMap Map.empty, r')
                 else (case decode_members n Map.empty (d # r') of
                         None \<Rightarrow> None
                       | Some (m, rest) \<Rightarrow> Some (VMap m, rest)))
          else if c = CHR ''['' then
            (case skip_ws r of
               [] \<Rightarrow> None
             | d # r' \<Rightarrow>
                 if d = CHR '']'' then Some (VSlice [], r')
                 else (case decode_elements n [] (d # r') of
                         None \<Rightarrow> None
                       | Some (vs, rest) \<Rightarrow> Some (VSlice vs, rest)))
          else if c = CHR 0x22 then
            (case decode_string r of
               None \<Rightarrow> None
             | Some (str, rest) \<Rightarrow> Some (VString str, rest))
          else if c = CHR ''t'' then map_option (Pair (VBool True)) (literal ''true'' (c # r))
          else if c = CHR ''f'' then map_option (Pair (VBool False)) (literal ''false'' (c # r))
          else if c = CHR ''n'' then map_option (Pair VNil) (literal ''null'' (c # r))
          else (case decode_number (c # r) of
                  None \<Rightarrow> None
                | Some (x, rest) \<Rightarrow> Some (VFloat64 x, rest)))"
| "decode_members 0 m s = None"
| "decode_members (Suc n) m s =
     (case s of
        [] \<Rightarrow> None
      | c # r \<Rightarrow>
          if c = CHR 0x22 then
            (case decode_string r of
               None \<Rightarrow> None
             | Some (k, r1) \<Rightarrow>
                 (case skip_ws r1 of
                    [] \<Rightarrow> None
                  | d # r2 \<Rightarrow>
                      if d = CHR '':'' then
                        (case decode_value n r2 of
                           None \<Rightarrow> None
                         | Some (v, r3) \<Rightarrow>
                             (case skip_ws r3 of
                                [] \<Rightarrow> None
                              | e # r4 \<Rightarrow>
                                  if e = CHR '','' then decode_members n (m(k \<mapsto> v)) (skip_ws r4)
                                  else if e = CHR ''}'' then Some (m(k \<mapsto> v), r4)
                                  else None))
                      else None))
          else None)"
| "decode_elements 0 vs s = None"
| "decode_elements (Suc n) vs s =
     (case decode_value n s of
        None \<Rightarrow> None
      | Some (v, r1) \<Rightarrow>
          (case skip_ws r1 of
             [] \<Rightarrow> None
           | e # r2 \<Rightarrow>
               if e = CHR '','' then decode_elements n (vs @ [v]) r2
               else if e = CHR '']'' then Some (vs @ [v], r2)
               else None))"

text \<open>
  The result of \<^verbatim>\<open>json.Unmarshal(line, &data)\<close> for a nil \<^verbatim>\<open>data\<close> of map type: an error,
  or the value left in \<^verbatim>\<open>data\<close>, which stays the nil map (\<open>None\<close>) when the text is
  \<^verbatim>\<open>null\<close>.
\<close>

definition Unmarshal :: "string \<Rightarrow> error + gomap option" where
  "Unmarshal s =
     (case decode_value (Suc (length s)) s of
        None \<Rightarrow> Inl SyntaxError
      | Some (v, rest) \<Rightarrow>
          if skip_ws rest \<noteq> [] then Inl SyntaxError
          else (case v of
                  VMap m \<Rightarrow> Inr (Some m)
                | VNil \<Rightarrow> Inr None
                | _ \<Rightarrow> Inl UnmarshalTypeError))"

subsection \<open>regexp\<close>

text \<open>
  A compiled \<^verbatim>\<open>*regexp.Regexp\<close> is represented by the results of the methods that the
  program calls on it. \<^verbatim>\<open>regexp.Compile\<close> is a parameter \<open>compile\<close> of the functions that
  call it.
\<close>

record Regexp =
  MatchString :: "string \<Rightarrow> bool"
  FindStringSubmatch :: "string \<Rightarrow> string list option"
  SubexpNames :: "string list"

text \<open>
  The meaning of a pattern, for patterns built from literal bytes, \<^verbatim>\<open>\d\<close>, \<^verbatim>\<open>.\<close>, the
  anchors \<^verbatim>\<open>^\<close> and \<^verbatim>\<open>$\<close>, concatenation, alternation and \<^verbatim>\<open>*\<close>. \<open>re_ends r (p, s)\<close> lists
  the positions where a match of \<open>r\<close> can end that starts at offset \<open>p\<close> of the text, of
  which \<open>s\<close> is the rest; \<open>re_match\<close> is \<^verbatim>\<open>MatchString\<close>: a match starting anywhere.
\<close>

datatype re = Lit char | Digit | AnyChar | BeginText | EndText | Eps
  | Cat re re | Alt re re | Star re

primrec star_iter :: "nat \<Rightarrow> ('a \<Rightarrow> 'a list) \<Rightarrow> 'a list \<Rightarrow> 'a list" where
  "star_iter 0 f xs = xs"
| "star_iter (Suc n) f xs = xs @ star_iter n f (concat (map f xs))"

fun re_ends :: "re \<Rightarrow> nat \<times> string \<Rightarrow> (nat \<times> string) list" where
  "re_ends (Lit c) (p, s) =
     (case s of [] \<Rightarrow> [] | x # xs \<Rightarrow> if x = c then [(Suc p, xs)] else [])"
| "re_ends Digit (p, s) =
     (case s of [] \<Rightarrow> [] | x # xs \<Rightarrow> if is_digit x then [(Suc p, xs)] else [])"
| "re_ends AnyChar (p, s) =
     (case s of [] \<Rightarrow> [] | x # xs \<Rightarrow> if x \<noteq> CHR 0x0A then [(Suc p, xs)] else [])"
| "re_ends BeginText (p, s) = (if p = 0 then [(p, s)] else [])"
| "re_ends EndText (p, s) = (if s = [] then [(p, s)] else [])"
| "re_ends Eps (p, s) = [(p, s)]"
| "re_ends (Cat a b) (p, s) = concat (map (re_ends b) (re_ends a (p, s)))"
| "re_ends (Alt a b) (p, s) = re_ends a (p, s) @ re_ends b (p, s)"
| "re_ends (Star a) (p, s) = star_iter (length s) (re_ends a) [(p, s)]"

fun starts :: "nat \<Rightarrow> string \<Rightarrow> (nat \<times> string) list" where
  "starts p [] = [(p, [])]"
| "starts p (c # cs) = (p, c # cs) # starts (Suc p) cs"

definition re_match :: "re \<Rightarrow> string \<Rightarrow> bool" where
  "re_match r s = list_ex (\<lambda>st. re_ends r st \<noteq> []) (starts 0 s)"

text \<open>The pattern \<^verbatim>\<open>^5\d{2}$\<close>.\<close>

definition re_5xx :: re where
  "re_5xx = Cat BeginText (Cat (Lit (CHR ''5'')) (Cat Digit (Cat Digit EndText)))"

section \<open>Parsers and field lookup (agent/parser)\<close>

text \<open>
  A \<^verbatim>\<open>Parser\<close> is its method \<^verbatim>\<open>Parse\<close>, from a line to a record; the nil map, which
  reports a line that cannot be parsed, is \<open>None\<close>.
\<close>

type_synonym Parser = "string \<Rightarrow> gomap option"

definition JSONParser_Parse :: Parser where
  "JSONParser_Parse line = (case Unmarshal line of Inl err \<Rightarrow> None | Inr data \<Rightarrow> data)"

record RegexParser =
  re :: Regexp
  groupNames :: "string list"

definition NewRegexParser :: "(string \<Rightarrow> error + Regexp) \<Rightarrow> string \<Rightarrow> error + RegexParser" where
  "NewRegexParser compile pattern =
     (case compile pattern of
        Inl err \<Rightarrow> Inl (Wrapped ''invalid regex pattern'' err)
      | Inr r \<Rightarrow> Inr \<lparr>re = r, groupNames = SubexpNames r\<rparr>)"

text \<open>
  The loop of \<^verbatim>\<open>RegexParser.Parse\<close> over the group names with their indices. The writes
  into the result are collected in order; the map has no entry exactly when none was made.
\<close>

fun named_groups :: "nat \<Rightarrow> string list \<Rightarrow> string list \<Rightarrow> (string \<times> go_value) list" where
  "named_groups i [] matches = []"
| "named_groups i (name # names) matches =
     (if name \<noteq> '''' \<and> i < length matches
      then (name, VString (matches ! i)) # named_groups (Suc i) names matches
      else named_groups (Suc i) names matches)"

definition RegexParser_Parse :: "RegexParser \<Rightarrow> Parser" where
  "RegexParser_Parse p line =
     (case FindStringSubmatch (re p) line of
        None \<Rightarrow> None
      | Some matches \<Rightarrow>
          (let writes = named_groups 0 (groupNames p) matches
           in if writes = [] then None else Some (map_of (rev writes))))"

definition parser_New :: "(string \<Rightarrow> error + Regexp) \<Rightarrow> string \<Rightarrow> string \<Rightarrow> error + Parser" where
  "parser_New compile format pattern =
     (if format = ''json'' then Inr JSONParser_Parse
      else if format = ''regex'' then
        (case NewRegexParser compile pattern of
           Inl err \<Rightarrow> Inl err
         | Inr p \<Rightarrow> Inr (RegexParser_Parse p))
      else Inl (UnsupportedFormatError format))"

text \<open>The loop of \<^verbatim>\<open>GetField\<close> over the parts of the path.\<close>

fun GetField_loop :: "go_value \<Rightarrow> string list \<Rightarrow> go_value option" where
  "GetField_loop current [] = Some current"
| "GetField_loop current (part # parts) =
     (case current of
        VMap v \<Rightarrow> (case v part of None \<Rightarrow> None | Some val \<Rightarrow> GetField_loop val parts)
      | _ \<Rightarrow> None)"

text \<open>
  \<^verbatim>\<open>GetField\<close>, \<^verbatim>\<open>GetFieldString\<close> and \<^verbatim>\<open>GetFieldFloat\<close> return a value and a flag; \<open>None\<close>
  is the result whose flag is false.
\<close>

definition GetField :: "gomap option \<Rightarrow> string \<Rightarrow> go_value option" where
  "GetField data fld =
     (case data of
        None \<Rightarrow> None
      | Some d \<Rightarrow> GetField_loop (VMap d) (Split fld (CHR ''.'')))"

definition GetFieldString :: "gomap option \<Rightarrow> string \<Rightarrow> string option" where
  "GetFieldString data fld =
     (case GetField data fld of
        None \<Rightarrow> None
      | Some val \<Rightarrow>
          (case val of
             VString v \<Rightarrow> Some v
           | VFloat64 v \<Rightarrow> Some (FormatFloat v)
           | VInt v \<Rightarrow> Some (Itoa v)
           | VInt64 v \<Rightarrow> Some (Itoa v)
           | VBool v \<Rightarrow> Some (FormatBool v)
           | _ \<Rightarrow> None))"

definition GetFieldFloat :: "gomap option \<Rightarrow> string \<Rightarrow> real option" where
  "GetFieldFloat data fld =
     (case GetField data fld of
        None \<Rightarrow> None
      | Some val \<Rightarrow>
          (case val of
             VFloat64 v \<Rightarrow> Some v
           | VInt v \<Rightarrow> Some (real_of_int v)
           | VInt64 v \<Rightarrow> Some (real_of_int v)
           | VString v \<Rightarrow> ParseFloat v
           | _ \<Rightarrow> None))"

section \<open>Configuration (agent/config/config.go)\<close>

text \<open>Of the configuration, the parts that the processing of lines reads.\<close>

record config_Match =
  Match_Field :: string
  Match_Equals :: string
  Match_In :: "string list"
  Match_Regex :: string
  Match_Contains :: string

record config_Extract =
  Extract_Field :: string

record config_Metric =
  Metric_Name :: string
  Metric_Type :: string
  Metric_Match :: "config_Match option"
  Metric_Extract :: "config_Extract option"

record config_Source =
  Source_Path :: string
  Source_Format :: string
  Source_Pattern :: string
  Source_Metrics :: "config_Metric list"

section \<open>Matcher (agent/matcher/matcher.go)\<close>

text \<open>The field \<^verbatim>\<open>in\<close> is a Go map used as a set, nil unless the configured list has members.\<close>

record Matcher =
  field :: string
  equals :: string
  in_set :: "string fset option"
  regex :: "Regexp option"
  contains :: string
  always :: bool

definition matcher_New ::
  "(string \<Rightarrow> error + Regexp) \<Rightarrow> config_Match option \<Rightarrow> error + Matcher" where
  "matcher_New compile match =
     (case match of
        None \<Rightarrow>
          Inr \<lparr>field = '''', equals = '''', in_set = None, regex = None, contains = '''',
               always = True\<rparr>
      | Some mt \<Rightarrow>
          (let m = \<lparr>field = Match_Field mt, equals = Match_Equals mt,
                    in_set = (if length (Match_In mt) > 0
                              then Some (fset_of_list (Match_In mt)) else None),
                    regex = None, contains = Match_Contains mt, always = False\<rparr>
           in if Match_Regex mt \<noteq> '''' then
                (case compile (Match_Regex mt) of
                   Inl err \<Rightarrow> Inl err
                 | Inr r \<Rightarrow> Inr (m\<lparr>regex := Some r\<rparr>))
              else Inr m))"

definition Match :: "Matcher \<Rightarrow> gomap option \<Rightarrow> bool" where
  "Match m data =
     (if always m then True
      else if data = None then False
      else (case GetFieldString data (field m) of
              None \<Rightarrow> False
            | Some val \<Rightarrow>
                if equals m \<noteq> '''' then val = equals m
                else (case in_set m of
                        Some S \<Rightarrow> val |\<in>| S
                      | None \<Rightarrow>
                          (case regex m of
                             Some r \<Rightarrow> MatchString r val
                           | None \<Rightarrow>
                               if contains m \<noteq> '''' then strings_Contains val (contains m)
                               else False))))"

section \<open>Aggregator (agent/aggregator/aggregator.go)\<close>

type_synonym MetricType = string

abbreviation Counter :: MetricType where "Counter \<equiv> ''counter''"
abbreviation Gauge :: MetricType where "Gauge \<equiv> ''gauge''"
abbreviation Sum :: MetricType where "Sum \<equiv> ''sum''"
abbreviation SetType :: MetricType where "SetType \<equiv> ''set''"

text \<open>
  \<^verbatim>\<open>MetricValue\<close>: the field \<open>Set\<close> is a Go map used as a set; \<open>None\<close> is the nil map
  that the zero value of the struct holds.
\<close>

record MetricValue =
  Type :: MetricType
  Value :: real
  Set :: "string fset option"

text \<open>
  \<^verbatim>\<open>Aggregator\<close>: the mutex is not modelled, every operation below is one critical
  section. The map holds pointers that never leave the aggregator, so an entry is
  modelled by its value.
\<close>

record Aggregator =
  metrics :: "string \<Rightarrow> MetricValue option"

definition aggregator_New :: Aggregator where
  "aggregator_New = \<lparr>metrics = Map.empty\<rparr>"

definition Register :: "Aggregator \<Rightarrow> string \<Rightarrow> MetricType \<Rightarrow> Aggregator" where
  "Register a name metricType =
     (case metrics a name of
        Some _ \<Rightarrow> a
      | None \<Rightarrow>
          a\<lparr>metrics := (metrics a)(name \<mapsto>
              \<lparr>Type = metricType, Value = 0,
               Set = (if metricType = SetType then Some {||} else None)\<rparr>)\<rparr>)"

definition Inc :: "Aggregator \<Rightarrow> string \<Rightarrow> Aggregator" where
  "Inc a name =
     (case metrics a name of
        Some m \<Rightarrow>
          if Type m = Counter
          then a\<lparr>metrics := (metrics a)(name \<mapsto> m\<lparr>Value := Value m + 1\<rparr>)\<rparr>
          else a
      | None \<Rightarrow> a)"

definition SetGauge :: "Aggregator \<Rightarrow> string \<Rightarrow> real \<Rightarrow> Aggregator" where
  "SetGauge a name v =
     (case metrics a name of
        Some m \<Rightarrow>
          if Type m = Gauge
          then a\<lparr>metrics := (metrics a)(name \<mapsto> m\<lparr>Value := v\<rparr>)\<rparr>
          else a
      | None \<Rightarrow> a)"

definition Add :: "Aggregator \<Rightarrow> string \<Rightarrow> real \<Rightarrow> Aggregator" where
  "Add a name v =
     (case metrics a name of
        Some m \<Rightarrow>
          if Type m = Sum
          then a\<lparr>metrics := (metrics a)(name \<mapsto> m\<lparr>Value := Value m + v\<rparr>)\<rparr>
          else a
      | None \<Rightarrow> a)"

text \<open>
  \<^verbatim>\<open>AddToSet\<close> writes into the map of the entry; Go panics on a write into a nil map,
  which is the \<open>Inl\<close> result.
\<close>

definition AddToSet :: "Aggregator \<Rightarrow> string \<Rightarrow> string \<Rightarrow> panic + Aggregator" where
  "AddToSet a name v =
     (case metrics a name of
        Some m \<Rightarrow>
          if Type m = SetType
          then (case Set m of
                  None \<Rightarrow> Inl NilMapWrite
                | Some S \<Rightarrow>
                    Inr (a\<lparr>metrics := (metrics a)(name \<mapsto> m\<lparr>Set := Some (finsert v S)\<rparr>)\<rparr>))
          else Inr a
      | None \<Rightarrow> Inr a)"

text \<open>\<^verbatim>\<open>len\<close> of a Go map; the nil map has length 0.\<close>

definition len :: "string fset option \<Rightarrow> int" where
  "len S = (case S of None \<Rightarrow> 0 | Some T \<Rightarrow> int (fcard T))"

text \<open>
  The body of the loop of \<^verbatim>\<open>Snapshot\<close> for one entry: the value stored in the result
  (if the switch has a case for the type) and the entry after the reset.
\<close>

definition snapshot_entry :: "MetricValue \<Rightarrow> go_value option \<times> MetricValue" where
  "snapshot_entry m =
     (if Type m = Counter then (Some (VFloat64 (Value m)), m\<lparr>Value := 0\<rparr>)
      else if Type m = Gauge then (Some (VFloat64 (Value m)), m)
      else if Type m = Sum then (Some (VFloat64 (Value m)), m\<lparr>Value := 0\<rparr>)
      else if Type m = SetType then (Some (VInt (len (Set m))), m\<lparr>Set := Some {||}\<rparr>)
      else (None, m))"

text \<open>
  \<^verbatim>\<open>Snapshot\<close> ranges over the map; an iteration reads and writes only its own entry
  and its own key of the result, so the loop is the entry-wise map. The result is the
  returned map together with the aggregator after the resets.
\<close>

definition Snapshot :: "Aggregator \<Rightarrow> (string \<Rightarrow> go_value option) \<times> Aggregator" where
  "Snapshot a =
     ((\<lambda>name. case metrics a name of None \<Rightarrow> None | Some m \<Rightarrow> fst (snapshot_entry m)),
      a\<lparr>metrics := (\<lambda>name. case metrics a name of
                                None \<Rightarrow> None
                              | Some m \<Rightarrow> Some (snd (snapshot_entry m)))\<rparr>)"

text \<open>The body of the loop of \<^verbatim>\<open>Peek\<close> for one entry.\<close>

definition peek_entry :: "MetricValue \<Rightarrow> go_value option" where
  "peek_entry m =
     (if Type m = Counter \<or> Type m = Gauge \<or> Type m = Sum then Some (VFloat64 (Value m))
      else if Type m = SetType then Some (VInt (len (Set m)))
      else None)"

definition Peek :: "Aggregator \<Rightarrow> (string \<Rightarrow> go_value option)" where
  "Peek a = (\<lambda>name. case metrics a name of None \<Rightarrow> None | Some m \<Rightarrow> peek_entry m)"

text \<open>
  The two loops as Go runs them: over the keys of the map in some order, \<open>names\<close>, each
  key once. \<open>Snapshot_range\<close> and \<open>Peek_range\<close> run the loop bodies in that order; they
  compute \<open>Snapshot\<close> and \<open>Peek\<close> whatever the order is (\<open>Snapshot_range_eq\<close>,
  \<open>Peek_range_eq\<close> below).
\<close>

definition snapshot_step ::
  "string \<Rightarrow> (string \<Rightarrow> go_value option) \<times> Aggregator
     \<Rightarrow> (string \<Rightarrow> go_value option) \<times> Aggregator" where
  "snapshot_step name st =
     (case metrics (snd st) name of
        None \<Rightarrow> st
      | Some m \<Rightarrow>
          ((case fst (snapshot_entry m) of
              None \<Rightarrow> fst st
            | Some v \<Rightarrow> (fst st)(name \<mapsto> v)),
           (snd st)\<lparr>metrics := (metrics (snd st))(name \<mapsto> snd (snapshot_entry m))\<rparr>))"

definition Snapshot_range :: "string list \<Rightarrow> Aggregator \<Rightarrow> (string \<Rightarrow> go_value option) \<times> Aggregator" where
  "Snapshot_range names a = fold snapshot_step names (Map.empty, a)"

definition peek_step :: "Aggregator \<Rightarrow> string \<Rightarrow> (string \<Rightarrow> go_value option) \<Rightarrow> (string \<Rightarrow> go_value option)" where
  "peek_step a name result =
     (case metrics a name of
        None \<Rightarrow> result
      | Some m \<Rightarrow> (case peek_entry m of None \<Rightarrow> result | Some v \<Rightarrow> result(name \<mapsto> v)))"

definition Peek_range :: "string list \<Rightarrow> Aggregator \<Rightarrow> (string \<Rightarrow> go_value option)" where
  "Peek_range names a = fold (peek_step a) names Map.empty"

definition reset_entry :: "MetricValue \<Rightarrow> MetricValue" where
  "reset_entry m =
     (if Type m = SetType then m\<lparr>Value := 0, Set := Some {||}\<rparr> else m\<lparr>Value := 0\<rparr>)"

definition Reset :: "Aggregator \<Rightarrow> Aggregator" where
  "Reset a = a\<lparr>metrics := (\<lambda>name. map_option reset_entry (metrics a name))\<rparr>"

definition GetMetricType :: "Aggregator \<Rightarrow> string \<Rightarrow> MetricType \<times> bool" where
  "GetMetricType a name =
     (case metrics a name of Some m \<Rightarrow> (Type m, True) | None \<Rightarrow> ('''', False))"

section \<open>Source processors (agent/agent.go)\<close>

record metricProcessor =
  cfg :: config_Metric
  matcher :: Matcher

text \<open>
  \<^verbatim>\<open>sourceProcessor\<close>: the three counters are \<^verbatim>\<open>atomic.Int64\<close>, whose addition wraps. The
  aggregator is shared by all processors; it is passed to the functions and returned by
  them. The logger writes messages only and is left out, with the verbosity that guards it.
\<close>

record sourceProcessor =
  source :: config_Source
  parser :: Parser
  sp_metrics :: "metricProcessor list"
  linesParsed :: "64 word"
  linesMatched :: "64 word"
  parseErrors :: "64 word"

text \<open>
  The loop of \<^verbatim>\<open>newSourceProcessor\<close> over the metrics of the source: each metric is
  registered, then its matcher is built; an error of a matcher ends the construction.
\<close>

fun new_metrics ::
  "(string \<Rightarrow> error + Regexp) \<Rightarrow> config_Metric list \<Rightarrow> Aggregator \<Rightarrow> metricProcessor list
     \<Rightarrow> error + (metricProcessor list \<times> Aggregator)" where
  "new_metrics compile [] agg acc = Inr (acc, agg)"
| "new_metrics compile (m # ms) agg acc =
     (let agg' = Register agg (Metric_Name m) (Metric_Type m)
      in case matcher_New compile (Metric_Match m) of
           Inl err \<Rightarrow> Inl (Wrapped (''metric '' @ Metric_Name m) err)
         | Inr mt \<Rightarrow> new_metrics compile ms agg' (acc @ [\<lparr>cfg = m, matcher = mt\<rparr>]))"

definition newSourceProcessor ::
  "(string \<Rightarrow> error + Regexp) \<Rightarrow> config_Source \<Rightarrow> Aggregator
     \<Rightarrow> error + (sourceProcessor \<times> Aggregator)" where
  "newSourceProcessor compile src agg =
     (case parser_New compile (Source_Format src) (Source_Pattern src) of
        Inl err \<Rightarrow> Inl (Wrapped ''creating parser'' err)
      | Inr p \<Rightarrow>
          (case new_metrics compile (Source_Metrics src) agg [] of
             Inl err \<Rightarrow> Inl err
           | Inr (ms, agg') \<Rightarrow>
               Inr (\<lparr>source = src, parser = p, sp_metrics = ms,
                     linesParsed = 0, linesMatched = 0, parseErrors = 0\<rparr>, agg')))"

text \<open>The switch of \<^verbatim>\<open>processLine\<close> on the configured type of a metric that matched.\<close>

definition update_metric ::
  "metricProcessor \<Rightarrow> gomap option \<Rightarrow> Aggregator \<Rightarrow> panic + Aggregator" where
  "update_metric m data agg =
     (if Metric_Type (cfg m) = ''counter'' then Inr (Inc agg (Metric_Name (cfg m)))
      else if Metric_Type (cfg m) = ''gauge'' then
        (case Metric_Extract (cfg m) of
           None \<Rightarrow> Inr agg
         | Some ex \<Rightarrow>
             (case GetFieldFloat data (Extract_Field ex) of
                None \<Rightarrow> Inr agg
              | Some val \<Rightarrow> Inr (SetGauge agg (Metric_Name (cfg m)) val)))
      else if Metric_Type (cfg m) = ''sum'' then
        (case Metric_Extract (cfg m) of
           None \<Rightarrow> Inr agg
         | Some ex \<Rightarrow>
             (case GetFieldFloat data (Extract_Field ex) of
                None \<Rightarrow> Inr agg
              | Some val \<Rightarrow> Inr (Add agg (Metric_Name (cfg m)) val)))
      else if Metric_Type (cfg m) = ''set'' then
        (case Metric_Extract (cfg m) of
           None \<Rightarrow> Inr agg
         | Some ex \<Rightarrow>
             (case GetFieldString data (Extract_Field ex) of
                None \<Rightarrow> Inr agg
              | Some val \<Rightarrow> AddToSet agg (Metric_Name (cfg m)) val))
      else Inr agg)"

text \<open>
  The loop of \<^verbatim>\<open>processLine\<close> over the metrics, on the counter of matched lines and the
  aggregator.
\<close>

fun process_metrics ::
  "metricProcessor list \<Rightarrow> gomap option \<Rightarrow> 64 word \<times> Aggregator
     \<Rightarrow> panic + (64 word \<times> Aggregator)" where
  "process_metrics [] data st = Inr st"
| "process_metrics (m # ms) data (matched, agg) =
     (if \<not> Match (matcher m) data then process_metrics ms data (matched, agg)
      else (case update_metric m data agg of
              Inl e \<Rightarrow> Inl e
            | Inr agg' \<Rightarrow> process_metrics ms data (matched + 1, agg')))"

definition processLine ::
  "sourceProcessor \<Rightarrow> Aggregator \<Rightarrow> string \<Rightarrow> panic + (sourceProcessor \<times> Aggregator)" where
  "processLine p agg line =
     (case parser p line of
        None \<Rightarrow> Inr (p\<lparr>parseErrors := parseErrors p + 1\<rparr>, agg)
      | Some d \<Rightarrow>
          (case process_metrics (sp_metrics p) (Some d) (linesMatched p, agg) of
             Inl e \<Rightarrow> Inl e
           | Inr (matched, agg') \<Rightarrow>
               Inr (p\<lparr>linesParsed := linesParsed p + 1, linesMatched := matched\<rparr>, agg')))"

section \<open>Agent (agent/agent.go)\<close>

text \<open>Of \<^verbatim>\<open>Agent\<close>, the aggregator and the processors.\<close>

record Agent =
  aggregator :: Aggregator
  processors :: "sourceProcessor list"

text \<open>The loop of \<^verbatim>\<open>New\<close> over the sources of the configuration.\<close>

fun new_processors ::
  "(string \<Rightarrow> error + Regexp) \<Rightarrow> config_Source list \<Rightarrow> Aggregator \<Rightarrow> sourceProcessor list
     \<Rightarrow> error + (sourceProcessor list \<times> Aggregator)" where
  "new_processors compile [] agg acc = Inr (acc, agg)"
| "new_processors compile (src # srcs) agg acc =
     (case newSourceProcessor compile src agg of
        Inl err \<Rightarrow> Inl (Wrapped (''source '' @ Source_Path src) err)
      | Inr (proc, agg') \<Rightarrow> new_processors compile srcs agg' (acc @ [proc]))"

definition agent_New :: "(string \<Rightarrow> error + Regexp) \<Rightarrow> config_Source list \<Rightarrow> error + Agent" where
  "agent_New compile sources =
     (case new_processors compile sources aggregator_New [] of
        Inl err \<Rightarrow> Inl err
      | Inr (procs, agg) \<Rightarrow> Inr \<lparr>aggregator = agg, processors = procs\<rparr>)"

definition ProcessLine :: "Agent \<Rightarrow> int \<Rightarrow> string \<Rightarrow> panic + Agent" where
  "ProcessLine a sourceIndex line =
     (if sourceIndex \<ge> 0 \<and> sourceIndex < int (length (processors a)) then
        (case processLine (processors a ! nat sourceIndex) (aggregator a) line of
           Inl e \<Rightarrow> Inl e
         | Inr (p', agg') \<Rightarrow>
             Inr \<lparr>aggregator = agg', processors = (processors a)[nat sourceIndex := p']\<rparr>)
      else Inr a)"

text \<open>A sequence of calls of \<^verbatim>\<open>ProcessLine\<close>, each with its source index and line.\<close>

fun ProcessLines :: "Agent \<Rightarrow> (int \<times> string) list \<Rightarrow> panic + Agent" where
  "ProcessLines a [] = Inr a"
| "ProcessLines a ((i, l) # ls) =
     (case ProcessLine a i l of Inl e \<Rightarrow> Inl e | Inr a' \<Rightarrow> ProcessLines a' ls)"

section \<open>Reading lines (agent/tailer/tailer.go)\<close>

text \<open>
  An \<^verbatim>\<open>io.Reader\<close> that delivers the bytes of \<open>pending\<close>, one for each call of \<^verbatim>\<open>Read\<close>
  with a buffer of one byte, and then reports \<open>final\<close> on every call: \<^verbatim>\<open>io.EOF\<close> at the
  end of a file or a string, another error when reading fails. \<open>Read\<close> gives the byte
  read, if any, the error, if any, and the reader afterwards.
\<close>

record Reader =
  pending :: string
  final :: error

definition Read :: "Reader \<Rightarrow> char option \<times> error option \<times> Reader" where
  "Read r =
     (case pending r of
        [] \<Rightarrow> (None, Some (final r), r)
      | b # bs \<Rightarrow> (Some b, None, r\<lparr>pending := bs\<rparr>))"

record LineScanner =
  buf :: string
  reader :: Reader
  line :: string
  err :: "error option"

definition NewLineScanner :: "Reader \<Rightarrow> LineScanner" where
  "NewLineScanner r = \<lparr>buf = [], reader = r, line = [], err = None\<rparr>"

text \<open>The loop of \<^verbatim>\<open>Scan\<close>: the result of \<^verbatim>\<open>Scan\<close> and the scanner afterwards.\<close>

function Scan_loop :: "LineScanner \<Rightarrow> bool \<times> LineScanner" where
  "Scan_loop s =
     (case Read (reader s) of
        (b, e, r') \<Rightarrow>
          (case (case b of
                   Some c \<Rightarrow>
                     if c = CHR 0x0A then Inl (True, s\<lparr>reader := r', line := buf s\<rparr>)
                     else if length (buf s @ [c]) > 1024 * 1024
                     then Inl (False, s\<lparr>reader := r', buf := buf s @ [c], err := Some LineTooLong\<rparr>)
                     else Inr (s\<lparr>reader := r', buf := buf s @ [c]\<rparr>)
                 | None \<Rightarrow> Inr (s\<lparr>reader := r'\<rparr>)) of
             Inl res \<Rightarrow> res
           | Inr s' \<Rightarrow>
               (case e of
                  Some x \<Rightarrow>
                    if x = EOF then
                      (if length (buf s') > 0 then (True, s'\<lparr>line := buf s'\<rparr>) else (False, s'))
                    else (False, s'\<lparr>err := Some x\<rparr>)
                | None \<Rightarrow> Scan_loop s')))"
  by pat_completeness auto
termination
  by (relation "measure (\<lambda>s. length (pending (reader s)))")
    (auto simp: Read_def split: list.splits option.splits if_splits)

declare Scan_loop.simps [simp del]

definition Scan :: "LineScanner \<Rightarrow> bool \<times> LineScanner" where
  "Scan s = Scan_loop (s\<lparr>line := [], buf := []\<rparr>)"

text \<open>
  The loop of \<^verbatim>\<open>ProcessReader\<close>. The handler is a procedure with effects of its own; it
  is modelled as a function on a state \<open>h\<close> that stands for what the handler has done.
\<close>

function ProcessReader_loop ::
  "(string \<Rightarrow> 'h \<Rightarrow> 'h) \<Rightarrow> int \<Rightarrow> LineScanner \<Rightarrow> int \<Rightarrow> 'h \<Rightarrow> LineScanner \<times> int \<times> 'h" where
  "ProcessReader_loop handler limit scanner count h =
     (case Scan scanner of
        (ok, scanner') \<Rightarrow>
          if ok then
            (if limit > 0 \<and> count \<ge> limit then (scanner', count, h)
             else ProcessReader_loop handler limit scanner' (count + 1)
                    (handler (line scanner') h))
          else (scanner', count, h))"
  by pat_completeness auto
termination
proof -
  have le: "Scan_loop s = (res, s') \<Longrightarrow>
      length (pending (reader s')) \<le> length (pending (reader s))" for s res s'
  proof (induction "pending (reader s)" arbitrary: s)
    case Nil
    from Nil(2) Nil(1) [symmetric] show ?case
      by (subst (asm) Scan_loop.simps) (auto simp: Read_def split: if_splits)
  next
    case (Cons b bs)
    let ?s1 = "s\<lparr>reader := (reader s)\<lparr>pending := bs\<rparr>, buf := buf s @ [b]\<rparr>"
    have "Scan_loop ?s1 = (res, s') \<Longrightarrow> length (pending (reader s')) \<le> length bs"
      using Cons(1) [of ?s1] by simp
    with Cons(3) Cons(2) [symmetric] show ?case
      by (subst (asm) Scan_loop.simps) (auto simp: Read_def split: if_splits)
  qed
  have progress: "length (pending (reader s')) < length (pending (reader s))"
    if scan: "Scan s = (True, s')" for s s'
  proof (cases "pending (reader s)")
    case Nil
    with scan show ?thesis
      by (auto simp: Scan_def Read_def Scan_loop.simps split: if_splits)
  next
    case (Cons b bs)
    from scan Cons show ?thesis
      unfolding Scan_def
      by (subst (asm) Scan_loop.simps) (auto simp: Read_def split: if_splits dest!: le)
  qed
  show ?thesis
    by (relation "measure (\<lambda>(handler, limit, s, count, h). length (pending (reader s)))")
      (auto dest: progress [OF sym])
qed

declare ProcessReader_loop.simps [simp del]

text \<open>\<^verbatim>\<open>ProcessReader\<close>: the count, the error if any, and the state of the handler.\<close>

definition ProcessReader ::
  "Reader \<Rightarrow> (string \<Rightarrow> 'h \<Rightarrow> 'h) \<Rightarrow> int \<Rightarrow> 'h \<Rightarrow> int \<times> error option \<times> 'h" where
  "ProcessReader r handler limit h0 =
     (case ProcessReader_loop handler limit (NewLineScanner r) 0 h0 of
        (scanner, count, h) \<Rightarrow>
          (case err scanner of
             Some e \<Rightarrow> (count, Some (Wrapped ''reading'' e), h)
           | None \<Rightarrow> (count, None, h)))"

text \<open>A handler that records the lines it is given, and a text of lines that each end in a newline.\<close>

definition collect :: "string \<Rightarrow> string list \<Rightarrow> string list" where
  "collect l h = h @ [l]"

definition text_of :: "string list \<Rightarrow> string" where
  "text_of ls = concat (map (\<lambda>l. l @ [CHR 0x0A]) ls)"

text \<open>
  The lines of a text that consists of the lines \<open>ls\<close>, each ended by a newline, and of
  a last part \<open>rest\<close> without newline: the last part is a line unless it is empty.
\<close>

definition with_last :: "string list \<Rightarrow> string \<Rightarrow> string list" where
  "with_last ls rest = ls @ (if rest = [] then [] else [rest])"

section \<open>Deployment mode (agent/sender/sender.go)\<close>

text \<open>
  The machine the agent runs on, as far as the detection of the deployment mode could
  look at it: the environment variables, the files that exist, and whether the cgroup of
  the process is that of a container.
\<close>

record host =
  env :: "string \<Rightarrow> string option"
  files :: "string set"
  cgroup_container :: bool

text \<open>\<^verbatim>\<open>os.LookupEnv\<close>, the library function that the comment of \<^verbatim>\<open>lookupEnv\<close> names.\<close>

definition os_LookupEnv :: "host \<Rightarrow> string \<Rightarrow> string \<times> bool" where
  "os_LookupEnv h key = (case env h key of Some v \<Rightarrow> (v, True) | None \<Rightarrow> ('''', False))"

text \<open>
  \<^verbatim>\<open>lookupEnv\<close> is a package variable that holds a function; this is the function it holds
  at start. \<^verbatim>\<open>fileExists\<close> and \<^verbatim>\<open>isInContainer\<close> are functions. None of the three bodies
  reads the machine.
\<close>

definition lookupEnv :: "host \<Rightarrow> string \<Rightarrow> string \<times> bool" where
  "lookupEnv h key = ('''', False)"

definition fileExists :: "host \<Rightarrow> string \<Rightarrow> bool" where
  "fileExists h path = False"

definition isInContainer :: "host \<Rightarrow> bool" where
  "isInContainer h = False"

text \<open>\<^verbatim>\<open>detectDeploymentMode\<close>, given the function that the variable \<^verbatim>\<open>lookupEnv\<close> holds.\<close>

definition detectDeploymentMode :: "(string \<Rightarrow> string \<times> bool) \<Rightarrow> host \<Rightarrow> string" where
  "detectDeploymentMode lookup h =
     (if snd (lookup ''KUBERNETES_SERVICE_HOST'') then ''kubernetes''
      else if fileExists h ''/.dockerenv'' then ''docker''
      else if isInContainer h then ''container''
      else ''standalone'')"

text \<open>
  The selection of the deployment mode as the specification words it: by the presence of
  the Kubernetes variable, of the marker file, of a container cgroup.
\<close>

definition spec_deployment_mode :: "host \<Rightarrow> string" where
  "spec_deployment_mode h =
     (if env h ''KUBERNETES_SERVICE_HOST'' \<noteq> None then ''kubernetes''
      else if ''/.dockerenv'' \<in> files h then ''docker''
      else if cgroup_container h then ''container''
      else ''standalone'')"

definition docker_host :: host where
  "docker_host = \<lparr>env = Map.empty, files = {''/.dockerenv''}, cgroup_container = False\<rparr>"

section \<open>Notions used to state the properties\<close>

text \<open>
  Every entry of type set has a map: \<open>Register\<close> gives it one, and the resets keep one.
  \<open>set_of\<close> is the set held under a name, if the name is registered with type set.
\<close>

definition sets_allocated :: "Aggregator \<Rightarrow> bool" where
  "sets_allocated a = (\<forall>n m. metrics a n = Some m \<and> Type m = SetType \<longrightarrow> Set m \<noteq> None)"

definition set_of :: "Aggregator \<Rightarrow> string \<Rightarrow> string fset option" where
  "set_of a n =
     (case metrics a n of
        None \<Rightarrow> None
      | Some m \<Rightarrow> if Type m = SetType then Set m else None)"

text \<open>
  The strings that one metric processor, and then all metric processors of a source,
  hand to \<open>AddToSet\<close> under the name \<open>M\<close> for one record.
\<close>

definition contrib_metric :: "string \<Rightarrow> gomap option \<Rightarrow> metricProcessor \<Rightarrow> string list" where
  "contrib_metric M data mp =
     (if Match (matcher mp) data \<and> Metric_Name (cfg mp) = M \<and> Metric_Type (cfg mp) = ''set''
      then (case Metric_Extract (cfg mp) of
              None \<Rightarrow> []
            | Some ex \<Rightarrow>
                (case GetFieldString data (Extract_Field ex) of None \<Rightarrow> [] | Some v \<Rightarrow> [v]))
      else [])"

definition contrib_line :: "string \<Rightarrow> Parser \<times> metricProcessor list \<Rightarrow> string \<Rightarrow> string list" where
  "contrib_line M st l =
     (case fst st l of
        None \<Rightarrow> []
      | Some d \<Rightarrow> concat (map (contrib_metric M (Some d)) (snd st)))"

definition static :: "sourceProcessor \<Rightarrow> Parser \<times> metricProcessor list" where
  "static p = (parser p, sp_metrics p)"

definition contrib_event ::
  "string \<Rightarrow> (Parser \<times> metricProcessor list) list \<Rightarrow> int \<times> string \<Rightarrow> string list" where
  "contrib_event M sts ev =
     (if fst ev \<ge> 0 \<and> fst ev < int (length sts)
      then contrib_line M (sts ! nat (fst ev)) (snd ev) else [])"

text \<open>
  The specification's collection for a set metric: over the lines \<open>ls\<close>, in order, the
  string-coerced value of the field \<open>fld\<close> of each line that parses, that the matcher
  accepts and whose field coerces to a string.
\<close>

definition coerced_values :: "Parser \<Rightarrow> Matcher \<Rightarrow> string \<Rightarrow> string list \<Rightarrow> string list" where
  "coerced_values prs mt fld ls =
     List.map_filter
       (\<lambda>l. case prs l of
               None \<Rightarrow> None
             | Some d \<Rightarrow> if Match mt (Some d) then GetFieldString (Some d) fld else None)
       ls"

text \<open>The lines that a sequence of calls of \<^verbatim>\<open>ProcessLine\<close> gives to the source \<open>k\<close>.\<close>

definition lines_for :: "nat \<Rightarrow> (int \<times> string) list \<Rightarrow> string list" where
  "lines_for k events = map snd (filter (\<lambda>ev. fst ev = int k) events)"

text \<open>
  What the construction of the agent does: it registers the metrics of all sources in
  order, and builds for each source a processor with the parser of the source and, for
  each metric, a metric processor with the matcher of the metric.
\<close>

definition register_all :: "config_Metric list \<Rightarrow> Aggregator \<Rightarrow> Aggregator" where
  "register_all ms a = fold (\<lambda>m a. Register a (Metric_Name m) (Metric_Type m)) ms a"

definition built_metric :: "(string \<Rightarrow> error + Regexp) \<Rightarrow> config_Metric \<Rightarrow> metricProcessor \<Rightarrow> bool" where
  "built_metric compile m mp =
     (cfg mp = m \<and> matcher_New compile (Metric_Match m) = Inr (matcher mp))"

definition built :: "(string \<Rightarrow> error + Regexp) \<Rightarrow> config_Source \<Rightarrow> sourceProcessor \<Rightarrow> bool" where
  "built compile src p =
     (parser_New compile (Source_Format src) (Source_Pattern src) = Inr (parser p) \<and>
      list_all2 (built_metric compile) (Source_Metrics src) (sp_metrics p))"

text \<open>
  An example state: a counter \<open>c\<close> incremented twice, a gauge \<open>g\<close> last set to 20 (the
  state of scenario S4 before the snapshot), a sum \<open>t\<close> holding 7 and a set \<open>s\<close>;
  \<open>example_sets\<close> then inserts \<open>x\<close>, \<open>y\<close> and \<open>x\<close> again into the set.
\<close>

definition example_state :: Aggregator where
  "example_state =
     Register (Add (Register
       (SetGauge (SetGauge (Register
          (Inc (Inc (Register aggregator_New ''c'' Counter) ''c'') ''c'') ''g'' Gauge) ''g'' 10) ''g'' 20)
       ''t'' Sum) ''t'' 7) ''s'' SetType"

definition example_sets :: "panic + Aggregator" where
  "example_sets =
     (case AddToSet example_state ''s'' ''x'' of
        Inl e \<Rightarrow> Inl e
      | Inr a \<Rightarrow>
          (case AddToSet a ''s'' ''y'' of
             Inl e \<Rightarrow> Inl e
           | Inr a' \<Rightarrow> AddToSet a' ''s'' ''x''))"

definition example_set_state :: Aggregator where
  "example_set_state = (case example_sets of Inl e \<Rightarrow> example_state | Inr a \<Rightarrow> a)"

text \<open>
  Scenario S1: one JSON source with the counter \<open>requests\<close>, which matches the field
  \<open>event\<close> against \<open>request\<close>, and the sum \<open>total_bytes\<close> of the field \<open>bytes\<close>, which
  has no match condition; the three lines of the scenario; and the metric processors
  that the construction of the agent builds for the source. \<open>peek_after\<close> builds an agent
  for a configuration, gives it lines, each with the index of its source, and peeks.
\<close>

definition s1_source :: config_Source where
  "s1_source =
     \<lparr>Source_Path = ''/var/log/test.log'', Source_Format = ''json'', Source_Pattern = '''',
      Source_Metrics =
        [\<lparr>Metric_Name = ''requests'', Metric_Type = ''counter'',
          Metric_Match = Some \<lparr>Match_Field = ''event'', Match_Equals = ''request'',
                               Match_In = [], Match_Regex = '''', Match_Contains = ''''\<rparr>,
          Metric_Extract = None\<rparr>,
         \<lparr>Metric_Name = ''total_bytes'', Metric_Type = ''sum'', Metric_Match = None,
          Metric_Extract = Some \<lparr>Extract_Field = ''bytes''\<rparr>\<rparr>]\<rparr>"

definition s1_lines :: "string list" where
  \<open>s1_lines =
     [''{"event":"request","bytes":100}'',
      ''{"event":"request","bytes":200}'',
      ''{"event":"other","bytes":999}'']\<close>

definition peek_after ::
  "(string \<Rightarrow> error + Regexp) \<Rightarrow> config_Source list \<Rightarrow> (int \<times> string) list
     \<Rightarrow> (string \<Rightarrow> go_value option) option" where
  "peek_after compile sources ls =
     (case agent_New compile sources of
        Inl e0 \<Rightarrow> None
      | Inr a \<Rightarrow>
          (case ProcessLines a ls of
             Inl e \<Rightarrow> None
           | Inr a' \<Rightarrow> Some (Peek (aggregator a'))))"

definition s1_matchers :: "metricProcessor list" where
  "s1_matchers =
     [\<lparr>cfg = Source_Metrics s1_source ! 0,
       matcher = \<lparr>field = ''event'', equals = ''request'', in_set = None, regex = None,
                  contains = '''', always = False\<rparr>\<rparr>,
      \<lparr>cfg = Source_Metrics s1_source ! 1,
       matcher = \<lparr>field = '''', equals = '''', in_set = None, regex = None,
                  contains = '''', always = True\<rparr>\<rparr>]"

text \<open>
  A function in the place of \<^verbatim>\<open>regexp.Compile\<close> that knows one pattern, \<^verbatim>\<open>^5\d{2}$\<close>,
  with a compiled form of it. The pattern is anchored at both ends, so that the text of
  a match is the whole string. \<open>s1_processor\<close> is the processor of scenario S1 as the
  agent builds it.
\<close>

definition pattern_5xx :: string where
  "pattern_5xx = ''^5'' @ [CHR 0x5C] @ ''d{2}$''"

definition regexp_5xx :: Regexp where
  "regexp_5xx =
     \<lparr>MatchString = re_match re_5xx,
      FindStringSubmatch = (\<lambda>s. if re_match re_5xx s then Some [s] else None),
      SubexpNames = [[]]\<rparr>"

definition example_compile :: "string \<Rightarrow> error + Regexp" where
  "example_compile pattern =
     (if pattern = pattern_5xx then Inr regexp_5xx else Inl (RegexpError pattern))"

definition s1_processor :: sourceProcessor where
  "s1_processor =
     \<lparr>source = s1_source, parser = JSONParser_Parse, sp_metrics = s1_matchers,
      linesParsed = 0, linesMatched = 0, parseErrors = 0\<rparr>"

text \<open>
  Scenario S2 as a second source, after the source of scenario S1: the set metric
  \<open>unique_users\<close> of the field \<open>user_id\<close>; and calls that give lines to both sources.
\<close>

definition s2_source :: config_Source where
  "s2_source =
     \<lparr>Source_Path = ''/var/log/users.log'', Source_Format = ''json'', Source_Pattern = [],
      Source_Metrics =
        [\<lparr>Metric_Name = ''unique_users'', Metric_Type = ''set'', Metric_Match = None,
          Metric_Extract = Some \<lparr>Extract_Field = ''user_id''\<rparr>\<rparr>]\<rparr>"

definition s2_events :: "(int \<times> string) list" where
  \<open>s2_events =
     [(1, ''{"user_id":"a"}''),
      (0, ''{"event":"request","bytes":100}''),
      (1, ''{"user_id":"b"}''),
      (1, ''not json''),
      (1, ''{"user_id":"a"}'')]\<close>

text \<open>
  A configuration in which a name is used twice, first for a counter and then for a set
  of the field \<open>user_id\<close>, with three lines for it; and the value that \<open>Peek\<close> shows for
  one name after an agent built for a configuration was given lines.
\<close>

definition dup_source :: config_Source where
  "dup_source =
     \<lparr>Source_Path = ''/var/log/users.log'', Source_Format = ''json'', Source_Pattern = [],
      Source_Metrics =
        [\<lparr>Metric_Name = ''m'', Metric_Type = ''counter'', Metric_Match = None,
          Metric_Extract = None\<rparr>,
         \<lparr>Metric_Name = ''m'', Metric_Type = ''set'', Metric_Match = None,
          Metric_Extract = Some \<lparr>Extract_Field = ''user_id''\<rparr>\<rparr>]\<rparr>"

definition dup_events :: "(int \<times> string) list" where
  \<open>dup_events =
     [(0, ''{"user_id":"a"}''), (0, ''{"user_id":"b"}''), (0, ''{"user_id":"a"}'')]\<close>

definition always_matcher :: Matcher where
  "always_matcher =
     \<lparr>field = [], equals = [], in_set = None, regex = None, contains = [], always = True\<rparr>"

definition peek_name ::
  "(string \<Rightarrow> error + Regexp) \<Rightarrow> config_Source list \<Rightarrow> (int \<times> string) list \<Rightarrow> string
     \<Rightarrow> go_value option" where
  "peek_name compile sources ls name =
     (case peek_after compile sources ls of None \<Rightarrow> None | Some pk \<Rightarrow> pk name)"

section \<open>Properties of the aggregator\<close>

lemma fold_snapshot_step:
  "distinct names \<Longrightarrow>
   fold snapshot_step names (res, a) =
     ((\<lambda>n. if n \<in> set names
            then (case metrics a n of
                    None \<Rightarrow> res n
                  | Some m \<Rightarrow> (case fst (snapshot_entry m) of None \<Rightarrow> res n | Some v \<Rightarrow> Some v))
            else res n),
      a\<lparr>metrics := (\<lambda>n. if n \<in> set names
                           then map_option (\<lambda>m. snd (snapshot_entry m)) (metrics a n)
                           else metrics a n)\<rparr>)"
proof (induction names arbitrary: res a)
  case Nil
  then show ?case by simp
next
  case (Cons x xs)
  show ?case
  proof (cases "metrics a x")
    case None
    with Cons show ?thesis
      by (auto simp: snapshot_step_def fun_eq_iff intro!: arg_cong2 [where f = Pair])
  next
    case (Some m)
    with Cons show ?thesis
      by (auto simp: snapshot_step_def fun_eq_iff split: option.splits)
  qed
qed

lemma Snapshot_range_eq:
  assumes "distinct names" "set names = dom (metrics a)"
  shows "Snapshot_range names a = Snapshot a"
proof -
  have "(\<lambda>n. if n \<in> set names
              then map_option (\<lambda>m. snd (snapshot_entry m)) (metrics a n)
              else metrics a n) =
        (\<lambda>name. case metrics a name of None \<Rightarrow> None | Some m \<Rightarrow> Some (snd (snapshot_entry m)))"
    using assms(2) by (auto simp: fun_eq_iff split: option.splits)
  moreover have "(\<lambda>n. if n \<in> set names
              then (case metrics a n of
                      None \<Rightarrow> None
                    | Some m \<Rightarrow> (case fst (snapshot_entry m) of None \<Rightarrow> None | Some v \<Rightarrow> Some v))
              else None) =
        (\<lambda>name. case metrics a name of None \<Rightarrow> None | Some m \<Rightarrow> fst (snapshot_entry m))"
    using assms(2) by (auto simp: fun_eq_iff split: option.splits)
  ultimately show ?thesis
    by (simp add: Snapshot_range_def fold_snapshot_step [OF assms(1)] Snapshot_def)
qed

lemma fold_peek_step:
  "fold (peek_step a) names res =
     (\<lambda>n. if n \<in> set names
           then (case metrics a n of
                   None \<Rightarrow> res n
                 | Some m \<Rightarrow> (case peek_entry m of None \<Rightarrow> res n | Some v \<Rightarrow> Some v))
           else res n)"
  by (induction names arbitrary: res) (auto simp: peek_step_def fun_eq_iff split: option.splits)

lemma Peek_range_eq: "set names = dom (metrics a) \<Longrightarrow> Peek_range names a = Peek a"
  by (auto simp: Peek_range_def fold_peek_step Peek_def fun_eq_iff split: option.splits)

lemma example_state_metrics:
  "metrics example_state ''c'' = Some \<lparr>Type = Counter, Value = 2, Set = None\<rparr>"
  "metrics example_state ''g'' = Some \<lparr>Type = Gauge, Value = 20, Set = None\<rparr>"
  "metrics example_state ''t'' = Some \<lparr>Type = Sum, Value = 7, Set = None\<rparr>"
  "metrics example_state ''s'' = Some \<lparr>Type = SetType, Value = 0, Set = Some {||}\<rparr>"
  "metrics example_state ''zz'' = None"
  by (simp_all add: example_state_def aggregator_New_def Register_def Inc_def SetGauge_def Add_def)

lemma example_sets_eq:
  "example_sets =
     Inr (example_state\<lparr>metrics := (metrics example_state)(''s'' \<mapsto>
            \<lparr>Type = SetType, Value = 0, Set = Some {|''x'', ''y''|}\<rparr>)\<rparr>)"
  by (simp add: example_sets_def AddToSet_def example_state_metrics finsert_commute)

text \<open>
  C5: a registration of a name that is already registered, with whatever type, leaves the
  aggregator as it was: the entry keeps its type and its accumulated value.
\<close>

theorem Register_registered_noop:
  "metrics a name = Some m \<Longrightarrow> Register a name t = a"
  by (simp add: Register_def)

theorem Register_registered_noop_witness:
  "metrics example_state ''c'' = Some \<lparr>Type = Counter, Value = 2, Set = None\<rparr> \<and>
   Register example_state ''c'' Gauge = example_state"
  using Register_registered_noop [of example_state "''c''"
      "\<lparr>Type = Counter, Value = 2, Set = None\<rparr>" Gauge]
  by (simp add: example_state_metrics)

text \<open>
  C4: each write operation leaves the aggregator unchanged when the name is not registered
  or is registered with a type other than the one the operation writes (\<open>Inc\<close> counters,
  \<open>SetGauge\<close> gauges, \<open>Add\<close> sums, \<open>AddToSet\<close> sets); none of them fails: the first three
  have no failure at all, and \<open>AddToSet\<close> does not panic.
\<close>

theorem write_other_type_noop:
  "((metrics a name = None \<or> (\<exists>m. metrics a name = Some m \<and> Type m \<noteq> Counter))
      \<longrightarrow> Inc a name = a) \<and>
   ((metrics a name = None \<or> (\<exists>m. metrics a name = Some m \<and> Type m \<noteq> Gauge))
      \<longrightarrow> SetGauge a name v = a) \<and>
   ((metrics a name = None \<or> (\<exists>m. metrics a name = Some m \<and> Type m \<noteq> Sum))
      \<longrightarrow> Add a name v = a) \<and>
   ((metrics a name = None \<or> (\<exists>m. metrics a name = Some m \<and> Type m \<noteq> SetType))
      \<longrightarrow> AddToSet a name s = Inr a)"
  by (auto simp: Inc_def SetGauge_def Add_def AddToSet_def)

theorem write_other_type_noop_witness:
  "(\<exists>m. metrics example_state ''g'' = Some m \<and> Type m \<noteq> Counter) \<and>
   (\<exists>m. metrics example_state ''g'' = Some m \<and> Type m \<noteq> Sum) \<and>
   (\<exists>m. metrics example_state ''g'' = Some m \<and> Type m \<noteq> SetType) \<and>
   Inc example_state ''g'' = example_state \<and>
   Add example_state ''g'' 5 = example_state \<and>
   AddToSet example_state ''g'' ''x'' = Inr example_state \<and>
   metrics example_state ''zz'' = None \<and>
   SetGauge example_state ''zz'' 5 = example_state"
  using write_other_type_noop [of example_state "''g''" 5 "''x''"]
    write_other_type_noop [of example_state "''zz''" 5 "''x''"]
  by (simp add: example_state_metrics)

lemma peek_entry_snapshot:
  "peek_entry (snd (snapshot_entry m)) =
     (if Type m = Counter \<or> Type m = Sum then Some (VFloat64 0)
      else if Type m = Gauge then Some (VFloat64 (Value m))
      else if Type m = SetType then Some (VInt 0)
      else None)"
  by (simp add: peek_entry_def snapshot_entry_def len_def)

lemma fst_snapshot_entry: "fst (snapshot_entry m) = peek_entry m"
  by (simp add: peek_entry_def snapshot_entry_def)

text \<open>
  C1: the map returned by \<open>Snapshot\<close> holds the observable value of every registered
  metric, as \<open>Peek\<close> would have returned it: the value of a counter, gauge or sum, the
  number of members of a set. In the aggregator after the snapshot, \<open>Peek\<close> shows 0 for
  every counter and sum, cardinality 0 for every set, and for every gauge the value it
  had before the snapshot.
\<close>

theorem Snapshot_returns_and_resets:
  "fst (Snapshot a) = Peek a \<and>
   (\<forall>name m. metrics a name = Some m \<longrightarrow>
      (Type m = Counter \<longrightarrow>
         fst (Snapshot a) name = Some (VFloat64 (Value m)) \<and>
         Peek (snd (Snapshot a)) name = Some (VFloat64 0)) \<and>
      (Type m = Sum \<longrightarrow>
         fst (Snapshot a) name = Some (VFloat64 (Value m)) \<and>
         Peek (snd (Snapshot a)) name = Some (VFloat64 0)) \<and>
      (Type m = SetType \<longrightarrow>
         fst (Snapshot a) name = Some (VInt (len (Set m))) \<and>
         Peek (snd (Snapshot a)) name = Some (VInt 0)) \<and>
      (Type m = Gauge \<longrightarrow>
         fst (Snapshot a) name = Some (VFloat64 (Value m)) \<and>
         Peek (snd (Snapshot a)) name = Some (VFloat64 (Value m))))"
proof (intro conjI allI impI)
  show "fst (Snapshot a) = Peek a"
    by (auto simp: Snapshot_def Peek_def fst_snapshot_entry split: option.splits)
qed (simp_all add: Snapshot_def Peek_def peek_entry_snapshot fst_snapshot_entry,
     simp_all add: peek_entry_def)

lemma example_set_state_metrics:
  "metrics example_set_state ''c'' = Some \<lparr>Type = Counter, Value = 2, Set = None\<rparr>"
  "metrics example_set_state ''g'' = Some \<lparr>Type = Gauge, Value = 20, Set = None\<rparr>"
  "metrics example_set_state ''t'' = Some \<lparr>Type = Sum, Value = 7, Set = None\<rparr>"
  "metrics example_set_state ''s'' = Some \<lparr>Type = SetType, Value = 0, Set = Some {|''x'', ''y''|}\<rparr>"
  by (simp_all add: example_set_state_def example_sets_eq example_state_metrics)

lemma len_example: "len (Some {|''x'', ''y''|}) = 2"
  by (simp add: len_def fcard_finsert_if)

theorem Snapshot_returns_and_resets_witness:
  "fst (Snapshot example_set_state) ''c'' = Some (VFloat64 2) \<and>
   Peek (snd (Snapshot example_set_state)) ''c'' = Some (VFloat64 0) \<and>
   fst (Snapshot example_set_state) ''t'' = Some (VFloat64 7) \<and>
   Peek (snd (Snapshot example_set_state)) ''t'' = Some (VFloat64 0) \<and>
   fst (Snapshot example_set_state) ''s'' = Some (VInt 2) \<and>
   Peek (snd (Snapshot example_set_state)) ''s'' = Some (VInt 0) \<and>
   fst (Snapshot example_set_state) ''g'' = Some (VFloat64 20) \<and>
   Peek (snd (Snapshot example_set_state)) ''g'' = Some (VFloat64 20)"
  using Snapshot_returns_and_resets [of example_set_state, THEN conjunct2, rule_format,
      OF example_set_state_metrics(1)]
    Snapshot_returns_and_resets [of example_set_state, THEN conjunct2, rule_format,
      OF example_set_state_metrics(2)]
    Snapshot_returns_and_resets [of example_set_state, THEN conjunct2, rule_format,
      OF example_set_state_metrics(3)]
    Snapshot_returns_and_resets [of example_set_state, THEN conjunct2, rule_format,
      OF example_set_state_metrics(4)]
  by (simp add: len_example)

text \<open>
  C10: a registration with a type other than counter, gauge, sum and set succeeds, the
  name is then registered with that type; and whenever a name is registered with such a
  type, it is absent from the maps returned by \<open>Peek\<close> and \<open>Snapshot\<close>, and each of the
  four write operations on it leaves the aggregator unchanged.
\<close>

theorem unknown_type_unobservable:
  "\<not> (t = Counter \<or> t = Gauge \<or> t = Sum \<or> t = SetType) \<Longrightarrow>
   (metrics a name = None \<longrightarrow> GetMetricType (Register a name t) name = (t, True)) \<and>
   (GetMetricType a name = (t, True) \<longrightarrow>
      Peek a name = None \<and> fst (Snapshot a) name = None \<and>
      Inc a name = a \<and> SetGauge a name v = a \<and> Add a name v = a \<and>
      AddToSet a name s = Inr a)"
  by (auto simp: GetMetricType_def Register_def Peek_def Snapshot_def peek_entry_def
      snapshot_entry_def Inc_def SetGauge_def Add_def AddToSet_def split: option.splits)

theorem unknown_type_unobservable_witness:
  "\<not> (''histogram'' = Counter \<or> ''histogram'' = Gauge \<or> ''histogram'' = Sum \<or>
      ''histogram'' = SetType) \<and>
   metrics example_state ''h'' = None \<and>
   GetMetricType (Register example_state ''h'' ''histogram'') ''h'' = (''histogram'', True) \<and>
   Peek (Register example_state ''h'' ''histogram'') ''h'' = None \<and>
   fst (Snapshot (Register example_state ''h'' ''histogram'')) ''h'' = None \<and>
   Inc (Register example_state ''h'' ''histogram'') ''h'' =
     Register example_state ''h'' ''histogram'' \<and>
   SetGauge (Register example_state ''h'' ''histogram'') ''h'' 3 =
     Register example_state ''h'' ''histogram'' \<and>
   Add (Register example_state ''h'' ''histogram'') ''h'' 3 =
     Register example_state ''h'' ''histogram'' \<and>
   AddToSet (Register example_state ''h'' ''histogram'') ''h'' ''x'' =
     Inr (Register example_state ''h'' ''histogram'')"
proof -
  have t: "\<not> (''histogram'' = Counter \<or> ''histogram'' = Gauge \<or> ''histogram'' = Sum \<or>
      ''histogram'' = SetType)"
    by simp
  have n: "metrics example_state ''h'' = None"
    by (simp add: example_state_def aggregator_New_def Register_def Inc_def SetGauge_def Add_def)
  from unknown_type_unobservable [OF t, of example_state "''h''"] n
  have g: "GetMetricType (Register example_state ''h'' ''histogram'') ''h'' = (''histogram'', True)"
    by simp
  from unknown_type_unobservable [OF t, of "Register example_state ''h'' ''histogram''" "''h''" 3 "''x''"] g t n
  show ?thesis by simp
qed

section \<open>Evaluation of the JSON decoder\<close>

lemmas json_simps = JSONParser_Parse_def Unmarshal_def skip_ws_def is_space_def literal_def
  decode_number_def is_digit_def digit_val_def unescape_def

section \<open>Properties of the processing of lines\<close>

lemma s1_parse:
  \<open>JSONParser_Parse ''{"event":"request","bytes":100}'' =
     Some [''event'' \<mapsto> VString ''request'', ''bytes'' \<mapsto> VFloat64 100]\<close>
  \<open>JSONParser_Parse ''{"event":"request","bytes":200}'' =
     Some [''event'' \<mapsto> VString ''request'', ''bytes'' \<mapsto> VFloat64 200]\<close>
  \<open>JSONParser_Parse ''{"event":"other","bytes":999}'' =
     Some [''event'' \<mapsto> VString ''other'', ''bytes'' \<mapsto> VFloat64 999]\<close>
  by (simp_all add: json_simps)

lemma s1_agent:
  "agent_New compile [s1_source] =
     Inr \<lparr>aggregator = Register (Register aggregator_New ''requests'' ''counter'')
                          ''total_bytes'' ''sum'',
          processors = [\<lparr>source = s1_source, parser = JSONParser_Parse,
                         sp_metrics = s1_matchers,
                         linesParsed = 0, linesMatched = 0, parseErrors = 0\<rparr>]\<rparr>"
  by (simp add: agent_New_def newSourceProcessor_def parser_New_def s1_source_def
      matcher_New_def s1_matchers_def)

lemma s1_fields:
  "GetFieldString (Some [''event'' \<mapsto> VString e, ''bytes'' \<mapsto> VFloat64 b]) ''event'' = Some e"
  "GetFieldFloat (Some [''event'' \<mapsto> VString e, ''bytes'' \<mapsto> VFloat64 b]) ''bytes'' = Some b"
  by (simp_all add: GetFieldString_def GetFieldFloat_def GetField_def)

text \<open>
  C2 (scenario S1): from the initial state, after the three lines of the scenario, \<open>Peek\<close>
  shows 2.0 for \<open>requests\<close> and 1299.0 for \<open>total_bytes\<close>, and nothing else: the third
  line adds 999 to the sum although its event is \<open>other\<close>, because the matcher built for a
  metric without match condition accepts every record.
\<close>

theorem scenario_S1:
  "\<exists>pk. peek_after compile [s1_source] (map (Pair 0) s1_lines) = Some pk \<and>
        pk ''requests'' = Some (VFloat64 2) \<and>
        pk ''total_bytes'' = Some (VFloat64 1299) \<and>
        dom pk = {''requests'', ''total_bytes''} \<and>
        (\<exists>m. matcher_New compile None = Inr m \<and> (\<forall>data. Match m data))"
  apply (simp only: peek_after_def s1_agent sum.case)
  apply (simp add: s1_lines_def ProcessLine_def processLine_def s1_parse
      s1_matchers_def s1_source_def Match_def update_metric_def s1_fields)
  apply (simp add: Peek_def Inc_def Add_def Register_def aggregator_New_def peek_entry_def dom_def)
  apply (auto simp: matcher_New_def Match_def)
  done

theorem scenario_S1_witness:
  "\<exists>pk. peek_after example_compile [s1_source] (map (Pair 0) s1_lines) = Some pk \<and>
        pk ''requests'' = Some (VFloat64 2) \<and>
        pk ''total_bytes'' = Some (VFloat64 1299) \<and>
        dom pk = {''requests'', ''total_bytes''} \<and>
        (\<exists>m. matcher_New example_compile None = Inr m \<and> (\<forall>data. Match m data))"
  using scenario_S1 [of example_compile] .

text \<open>
  C3: when the parser of the source returns no record for a line, \<open>processLine\<close> returns
  the aggregator as it was, so that every metric keeps its state, and the processor with
  its counter of parse errors incremented by one and nothing else changed.
\<close>

theorem processLine_parse_miss:
  "parser p l = None \<Longrightarrow>
     processLine p agg l = Inr (p\<lparr>parseErrors := parseErrors p + 1\<rparr>, agg)"
  by (simp add: processLine_def)

theorem processLine_parse_miss_witness:
  "parser s1_processor ''not json'' = None \<and>
   processLine s1_processor example_state ''not json'' =
     Inr (s1_processor\<lparr>parseErrors := 1\<rparr>, example_state)"
proof -
  have miss: "parser s1_processor ''not json'' = None"
    by (simp add: s1_processor_def json_simps)
  from processLine_parse_miss [OF miss, of example_state] miss show ?thesis
    by (simp add: s1_processor_def)
qed

lemma sets_allocated_New: "sets_allocated aggregator_New"
  by (simp add: sets_allocated_def aggregator_New_def)

lemma sets_allocated_Register: "sets_allocated a \<Longrightarrow> sets_allocated (Register a n t)"
  by (auto simp: sets_allocated_def Register_def split: option.splits)

lemma sets_allocated_Inc: "sets_allocated a \<Longrightarrow> sets_allocated (Inc a n)"
  by (auto simp: sets_allocated_def Inc_def split: option.splits)

lemma sets_allocated_SetGauge: "sets_allocated a \<Longrightarrow> sets_allocated (SetGauge a n v)"
  by (auto simp: sets_allocated_def SetGauge_def split: option.splits)

lemma sets_allocated_Add: "sets_allocated a \<Longrightarrow> sets_allocated (Add a n v)"
  by (auto simp: sets_allocated_def Add_def split: option.splits)

lemma set_of_Inc: "set_of (Inc a n) M = set_of a M"
  by (auto simp: set_of_def Inc_def split: option.splits)

lemma set_of_SetGauge: "set_of (SetGauge a n v) M = set_of a M"
  by (auto simp: set_of_def SetGauge_def split: option.splits)

lemma set_of_Add: "set_of (Add a n v) M = set_of a M"
  by (auto simp: set_of_def Add_def split: option.splits)

lemma AddToSet_allocated:
  assumes "sets_allocated a"
  shows "\<exists>a'. AddToSet a n v = Inr a' \<and> sets_allocated a' \<and>
           (\<forall>M. set_of a' M = (if M = n then map_option (finsert v) (set_of a M) else set_of a M))"
proof (cases "metrics a n")
  case None
  with assms show ?thesis by (simp add: AddToSet_def set_of_def)
next
  case (Some m)
  show ?thesis
  proof (cases "Type m = SetType")
    case False
    with Some assms show ?thesis by (simp add: AddToSet_def set_of_def)
  next
    case True
    with Some assms obtain S where S: "Set m = Some S"
      by (auto simp: sets_allocated_def)
    with Some True assms show ?thesis
      by (auto simp: AddToSet_def set_of_def sets_allocated_def)
  qed
qed

lemma update_metric_allocated:
  assumes "sets_allocated a"
  shows "\<exists>a'. update_metric mp data a = Inr a' \<and> sets_allocated a' \<and>
           (\<forall>M S. set_of a M = Some S \<longrightarrow>
              set_of a' M = Some (S |\<union>| fset_of_list
                (if Metric_Name (cfg mp) = M \<and> Metric_Type (cfg mp) = ''set''
                 then (case Metric_Extract (cfg mp) of
                         None \<Rightarrow> []
                       | Some ex \<Rightarrow>
                           (case GetFieldString data (Extract_Field ex) of
                              None \<Rightarrow> [] | Some v \<Rightarrow> [v]))
                 else [])))"
proof -
  consider (counter) "Metric_Type (cfg mp) = ''counter''"
    | (gauge) "Metric_Type (cfg mp) = ''gauge''"
    | (sum) "Metric_Type (cfg mp) = ''sum''"
    | (set) "Metric_Type (cfg mp) = ''set''"
    | (other) "Metric_Type (cfg mp) \<notin> {''counter'', ''gauge'', ''sum'', ''set''}"
    by auto
  then show ?thesis
  proof cases
    case counter
    with assms show ?thesis
      by (simp add: update_metric_def sets_allocated_Inc set_of_Inc)
  next
    case gauge
    with assms show ?thesis
      by (simp add: update_metric_def sets_allocated_SetGauge set_of_SetGauge
          split: option.splits)
  next
    case sum
    with assms show ?thesis
      by (simp add: update_metric_def sets_allocated_Add set_of_Add split: option.splits)
  next
    case other
    with assms show ?thesis
      by (simp add: update_metric_def)
  next
    case set
    show ?thesis
    proof (cases "Metric_Extract (cfg mp)")
      case None
      with set assms show ?thesis by (simp add: update_metric_def)
    next
      case (Some ex)
      show ?thesis
      proof (cases "GetFieldString data (Extract_Field ex)")
        case None
        with set Some assms show ?thesis by (simp add: update_metric_def)
      next
        case (Some v)
        from AddToSet_allocated [OF assms, of "Metric_Name (cfg mp)" v]
        obtain a' where a': "AddToSet a (Metric_Name (cfg mp)) v = Inr a'" "sets_allocated a'"
          "\<And>M. set_of a' M = (if M = Metric_Name (cfg mp) then map_option (finsert v) (set_of a M)
                               else set_of a M)"
          by auto
        from set \<open>Metric_Extract (cfg mp) = Some ex\<close> Some a'(1)
        have "update_metric mp data a = Inr a'"
          by (simp add: update_metric_def)
        with a'(2,3) set \<open>Metric_Extract (cfg mp) = Some ex\<close> Some show ?thesis
          by auto
      qed
    qed
  qed
qed

lemma process_metrics_allocated:
  assumes "sets_allocated a"
  shows "\<exists>n a'. process_metrics ms data (k, a) = Inr (n, a') \<and> sets_allocated a' \<and>
           (\<forall>M S. set_of a M = Some S \<longrightarrow>
              set_of a' M =
                Some (S |\<union>| fset_of_list (concat (map (contrib_metric M data) ms))))"
  using assms
proof (induction ms arbitrary: k a)
  case Nil
  then show ?case by simp
next
  case (Cons mp ms)
  show ?case
  proof (cases "Match (matcher mp) data")
    case False
    with Cons.IH [OF Cons.prems, of k] show ?thesis
      by (simp add: contrib_metric_def)
  next
    case True
    from update_metric_allocated [OF Cons.prems, of mp data]
    obtain a1 where a1: "update_metric mp data a = Inr a1" "sets_allocated a1"
      "\<And>M S. set_of a M = Some S \<Longrightarrow>
         set_of a1 M = Some (S |\<union>| fset_of_list (contrib_metric M data mp))"
      using True by (auto simp: contrib_metric_def)
    from Cons.IH [OF a1(2), of "k + 1"]
    obtain n a' where a': "process_metrics ms data (k + 1, a1) = Inr (n, a')" "sets_allocated a'"
      "\<And>M S. set_of a1 M = Some S \<Longrightarrow>
         set_of a' M = Some (S |\<union>| fset_of_list (concat (map (contrib_metric M data) ms)))"
      by blast
    have "process_metrics (mp # ms) data (k, a) = Inr (n, a')"
      using True a1(1) a'(1) by simp
    moreover have "set_of a' M =
        Some (S |\<union>| fset_of_list (concat (map (contrib_metric M data) (mp # ms))))"
      if "set_of a M = Some S" for M S
      using a'(3) [OF a1(3) [OF that]] by (simp add: funion_assoc fset_of_list_append)
    ultimately show ?thesis
      using a'(2) by blast
  qed
qed

lemma processLine_allocated:
  assumes "sets_allocated a"
  shows "\<exists>p' a'. processLine p a l = Inr (p', a') \<and> sets_allocated a' \<and> static p' = static p \<and>
           (\<forall>M S. set_of a M = Some S \<longrightarrow>
              set_of a' M = Some (S |\<union>| fset_of_list (contrib_line M (static p) l)))"
proof (cases "parser p l")
  case None
  with assms show ?thesis
    by (simp add: processLine_def static_def contrib_line_def)
next
  case (Some d)
  from process_metrics_allocated [OF assms, of "sp_metrics p" "Some d" "linesMatched p"]
  obtain n a' where a': "process_metrics (sp_metrics p) (Some d) (linesMatched p, a) = Inr (n, a')"
    "sets_allocated a'"
    "\<And>M S. set_of a M = Some S \<Longrightarrow>
       set_of a' M =
         Some (S |\<union>| fset_of_list (concat (map (contrib_metric M (Some d)) (sp_metrics p))))"
    by blast
  with Some show ?thesis
    by (simp add: processLine_def static_def contrib_line_def)
qed


lemma ProcessLine_allocated:
  assumes "sets_allocated (aggregator ag)"
  shows "\<exists>ag'. ProcessLine ag i l = Inr ag' \<and> sets_allocated (aggregator ag') \<and>
           map static (processors ag') = map static (processors ag) \<and>
           (\<forall>M S. set_of (aggregator ag) M = Some S \<longrightarrow>
              set_of (aggregator ag') M =
                Some (S |\<union>| fset_of_list (contrib_event M (map static (processors ag)) (i, l))))"
proof (cases "i \<ge> 0 \<and> i < int (length (processors ag))")
  case False
  with assms show ?thesis
    by (auto simp: ProcessLine_def contrib_event_def)
next
  case True
  then have n: "nat i < length (processors ag)" by auto
  from processLine_allocated [OF assms, of "processors ag ! nat i" l]
  obtain p' a' where pa: "processLine (processors ag ! nat i) (aggregator ag) l = Inr (p', a')"
    "sets_allocated a'" "static p' = static (processors ag ! nat i)"
    "\<And>M S. set_of (aggregator ag) M = Some S \<Longrightarrow>
       set_of a' M = Some (S |\<union>| fset_of_list (contrib_line M (static (processors ag ! nat i)) l))"
    by blast
  have "map static ((processors ag)[nat i := p']) = map static (processors ag)"
    using pa(3) n by (simp add: map_update list_update_same_conv)
  with True n pa show ?thesis
    by (simp add: ProcessLine_def contrib_event_def)
qed

lemma ProcessLines_allocated:
  assumes "sets_allocated (aggregator ag)"
  shows "\<exists>ag'. ProcessLines ag events = Inr ag' \<and> sets_allocated (aggregator ag') \<and>
           map static (processors ag') = map static (processors ag) \<and>
           (\<forall>M S. set_of (aggregator ag) M = Some S \<longrightarrow>
              set_of (aggregator ag') M =
                Some (S |\<union>| fset_of_list
                  (concat (map (contrib_event M (map static (processors ag))) events))))"
  using assms
proof (induction events arbitrary: ag)
  case Nil
  then show ?case by simp
next
  case (Cons ev events)
  obtain i l where ev: "ev = (i, l)" by (cases ev)
  from ProcessLine_allocated [OF Cons.prems, of i l]
  obtain ag1 where ag1: "ProcessLine ag i l = Inr ag1" "sets_allocated (aggregator ag1)"
    "map static (processors ag1) = map static (processors ag)"
    "\<And>M S. set_of (aggregator ag) M = Some S \<Longrightarrow>
       set_of (aggregator ag1) M =
         Some (S |\<union>| fset_of_list (contrib_event M (map static (processors ag)) (i, l)))"
    by blast
  from Cons.IH [OF ag1(2)]
  obtain ag' where ag': "ProcessLines ag1 events = Inr ag'" "sets_allocated (aggregator ag')"
    "map static (processors ag') = map static (processors ag1)"
    "\<And>M S. set_of (aggregator ag1) M = Some S \<Longrightarrow>
       set_of (aggregator ag') M =
         Some (S |\<union>| fset_of_list
           (concat (map (contrib_event M (map static (processors ag1))) events)))"
    by blast
  have "ProcessLines ag (ev # events) = Inr ag'"
    using ag1(1) ag'(1) by (simp add: ev)
  moreover have "set_of (aggregator ag') M =
      Some (S |\<union>| fset_of_list
        (concat (map (contrib_event M (map static (processors ag))) (ev # events))))"
    if "set_of (aggregator ag) M = Some S" for M S
    using ag'(4) [OF ag1(4) [OF that]]
    by (simp add: ev ag1(3) funion_assoc fset_of_list_append)
  ultimately show ?case
    using ag'(2,3) ag1(3) by auto
qed

lemma new_metrics_built:
  "new_metrics compile ms agg acc = Inr (mps, agg') \<Longrightarrow>
   \<exists>mps'. mps = acc @ mps' \<and> list_all2 (built_metric compile) ms mps' \<and>
          agg' = register_all ms agg"
proof (induction ms arbitrary: agg acc)
  case Nil
  then show ?case by (simp add: register_all_def)
next
  case (Cons m ms)
  from Cons.prems obtain mt where mt: "matcher_New compile (Metric_Match m) = Inr mt"
    and rest: "new_metrics compile ms (Register agg (Metric_Name m) (Metric_Type m))
                 (acc @ [\<lparr>cfg = m, matcher = mt\<rparr>]) = Inr (mps, agg')"
    by (auto simp: Let_def split: sum.splits)
  from Cons.IH [OF rest] obtain mps' where
    "mps = (acc @ [\<lparr>cfg = m, matcher = mt\<rparr>]) @ mps'"
    "list_all2 (built_metric compile) ms mps'"
    "agg' = register_all ms (Register agg (Metric_Name m) (Metric_Type m))"
    by blast
  moreover from mt have "built_metric compile m \<lparr>cfg = m, matcher = mt\<rparr>"
    by (simp add: built_metric_def)
  ultimately show ?case
    by (intro exI [of _ "\<lparr>cfg = m, matcher = mt\<rparr> # mps'"]) (simp add: register_all_def)
qed

lemma newSourceProcessor_built:
  "newSourceProcessor compile src agg = Inr (p, agg') \<Longrightarrow>
   built compile src p \<and> agg' = register_all (Source_Metrics src) agg"
  by (auto simp: newSourceProcessor_def built_def split: sum.splits dest!: new_metrics_built)

lemma new_processors_built:
  "new_processors compile srcs agg acc = Inr (procs, agg') \<Longrightarrow>
   \<exists>ps. procs = acc @ ps \<and> list_all2 (built compile) srcs ps \<and>
        agg' = register_all (concat (map Source_Metrics srcs)) agg"
proof (induction srcs arbitrary: agg acc)
  case Nil
  then show ?case by (simp add: register_all_def)
next
  case (Cons src srcs)
  from Cons.prems obtain p agg1 where p: "newSourceProcessor compile src agg = Inr (p, agg1)"
    and rest: "new_processors compile srcs agg1 (acc @ [p]) = Inr (procs, agg')"
    by (auto split: sum.splits)
  from Cons.IH [OF rest] obtain ps where
    "procs = (acc @ [p]) @ ps" "list_all2 (built compile) srcs ps"
    "agg' = register_all (concat (map Source_Metrics srcs)) agg1"
    by blast
  with newSourceProcessor_built [OF p] show ?case
    by (intro exI [of _ "p # ps"]) (simp add: register_all_def)
qed

lemma agent_New_built:
  "agent_New compile sources = Inr a0 \<Longrightarrow>
   list_all2 (built compile) sources (processors a0) \<and>
   aggregator a0 = register_all (concat (map Source_Metrics sources)) aggregator_New"
  by (auto simp: agent_New_def split: sum.splits dest!: new_processors_built)


lemma sets_allocated_register_all: "sets_allocated a \<Longrightarrow> sets_allocated (register_all ms a)"
  unfolding register_all_def
  by (induction ms arbitrary: a) (simp_all add: sets_allocated_Register)

lemma register_all_keeps: "metrics a n = Some e \<Longrightarrow> metrics (register_all ms a) n = Some e"
  unfolding register_all_def
proof (induction ms arbitrary: a)
  case Nil
  then show ?case by simp
next
  case (Cons m ms)
  from Cons.prems have "metrics (Register a (Metric_Name m) (Metric_Type m)) n = Some e"
    by (auto simp: Register_def split: option.splits)
  from Cons.IH [OF this] show ?case by simp
qed

lemma register_all_new:
  "metrics a (Metric_Name m) = None \<Longrightarrow> m \<in> set ms \<Longrightarrow> distinct (map Metric_Name ms) \<Longrightarrow>
   metrics (register_all ms a) (Metric_Name m) =
     Some \<lparr>Type = Metric_Type m, Value = 0,
           Set = (if Metric_Type m = SetType then Some {||} else None)\<rparr>"
proof (induction ms arbitrary: a)
  case Nil
  then show ?case by simp
next
  case (Cons m' ms)
  show ?case
  proof (cases "m' = m")
    case True
    from Cons.prems(1) have "metrics (Register a (Metric_Name m) (Metric_Type m)) (Metric_Name m) =
        Some \<lparr>Type = Metric_Type m, Value = 0,
              Set = (if Metric_Type m = SetType then Some {||} else None)\<rparr>"
      by (simp add: Register_def)
    from register_all_keeps [OF this, of ms] True show ?thesis
      by (simp add: register_all_def)
  next
    case False
    with Cons.prems have "m \<in> set ms" "Metric_Name m' \<noteq> Metric_Name m" "distinct (map Metric_Name ms)"
      by auto
    moreover from this Cons.prems(1)
    have "metrics (Register a (Metric_Name m') (Metric_Type m')) (Metric_Name m) = None"
      by (auto simp: Register_def split: option.splits)
    ultimately show ?thesis
      using Cons.IH [of "Register a (Metric_Name m') (Metric_Type m')"]
      by (simp add: register_all_def)
  qed
qed

lemma set_of_Peek: "set_of a M = Some S \<Longrightarrow> Peek a M = Some (VInt (int (fcard S)))"
  by (auto simp: set_of_def Peek_def peek_entry_def len_def split: option.splits if_splits)

lemma distinct_concat_nth:
  "distinct (map f (concat xss)) \<Longrightarrow> k < length xss \<Longrightarrow> distinct (map f (xss ! k))"
proof (induction xss arbitrary: k)
  case Nil
  then show ?case by simp
next
  case (Cons xs xss)
  then show ?case by (cases k) auto
qed

lemma distinct_concat_disjoint:
  "distinct (map f (concat xss)) \<Longrightarrow> i < length xss \<Longrightarrow> k < length xss \<Longrightarrow> i \<noteq> k \<Longrightarrow>
   x \<in> set (xss ! i) \<Longrightarrow> y \<in> set (xss ! k) \<Longrightarrow> f x \<noteq> f y"
proof (induction xss arbitrary: i k)
  case Nil
  then show ?case by simp
next
  case (Cons xs xss)
  show ?case
  proof (cases i)
    case 0
    with Cons.prems obtain k' where k: "k = Suc k'" by (cases k) auto
    with Cons.prems 0 have "x \<in> set xs" "y \<in> set (concat xss)"
      by (auto simp: in_set_conv_nth) (metis nth_mem)
    with Cons.prems(1) show ?thesis by auto
  next
    case (Suc i')
    show ?thesis
    proof (cases k)
      case 0
      with Cons.prems Suc have "y \<in> set xs" "x \<in> set (concat xss)"
        by (auto simp: in_set_conv_nth) (metis nth_mem)
      with Cons.prems(1) show ?thesis by auto
    next
      case (Suc k')
      with Cons.prems \<open>i = Suc i'\<close> Cons.IH [of i' k'] show ?thesis by auto
    qed
  qed
qed


lemma list_all2_right: "list_all2 R xs ys \<Longrightarrow> y \<in> set ys \<Longrightarrow> \<exists>x\<in>set xs. R x y"
  by (induction rule: list_all2_induct) auto

lemma list_all2_left: "list_all2 R xs ys \<Longrightarrow> x \<in> set xs \<Longrightarrow> \<exists>y\<in>set ys. R x y"
  by (induction rule: list_all2_induct) auto

lemma contrib_own_source:
  assumes b: "list_all2 (built_metric compile) ms mps"
    and m: "m \<in> set ms" and d: "distinct (map Metric_Name ms)"
    and t: "Metric_Type m = ''set''" and e: "Metric_Extract m = Some ex"
    and mt: "matcher_New compile (Metric_Match m) = Inr mt"
  shows "set (concat (map (contrib_metric (Metric_Name m) data) mps)) =
           (if Match mt data
            then (case GetFieldString data (Extract_Field ex) of None \<Rightarrow> {} | Some v \<Rightarrow> {v})
            else {})"
proof -
  have each: "contrib_metric (Metric_Name m) data mp =
      (if cfg mp = m
       then (if Match mt data
             then (case GetFieldString data (Extract_Field ex) of None \<Rightarrow> [] | Some v \<Rightarrow> [v])
             else [])
       else [])" if "mp \<in> set mps" for mp
  proof -
    from list_all2_right [OF b that] obtain m' where m': "m' \<in> set ms" "built_metric compile m' mp"
      by auto
    show ?thesis
    proof (cases "Metric_Name (cfg mp) = Metric_Name m")
      case True
      with m' m d have "m' = m"
        by (auto simp: built_metric_def distinct_map dest: inj_onD)
      with m' mt t e show ?thesis
        by (auto simp: built_metric_def contrib_metric_def)
    next
      case False
      then show ?thesis
        by (auto simp: contrib_metric_def)
    qed
  qed
  from list_all2_left [OF b m] obtain mp0 where mp0: "mp0 \<in> set mps" "cfg mp0 = m"
    by (auto simp: built_metric_def)
  have "x \<in> set (concat (map (contrib_metric (Metric_Name m) data) mps)) \<longleftrightarrow>
      x \<in> (if Match mt data
            then (case GetFieldString data (Extract_Field ex) of None \<Rightarrow> {} | Some v \<Rightarrow> {v})
            else {})" for x
  proof
    assume "x \<in> set (concat (map (contrib_metric (Metric_Name m) data) mps))"
    then obtain mp where "mp \<in> set mps" "x \<in> set (contrib_metric (Metric_Name m) data mp)"
      by auto
    with each [of mp] show "x \<in> (if Match mt data
            then (case GetFieldString data (Extract_Field ex) of None \<Rightarrow> {} | Some v \<Rightarrow> {v})
            else {})"
      by (cases "cfg mp = m"; cases "Match mt data";
          cases "GetFieldString data (Extract_Field ex)") simp_all
  next
    assume "x \<in> (if Match mt data
            then (case GetFieldString data (Extract_Field ex) of None \<Rightarrow> {} | Some v \<Rightarrow> {v})
            else {})"
    with mp0 each [OF mp0(1)] have "x \<in> set (contrib_metric (Metric_Name m) data mp0)"
      by (cases "Match mt data"; cases "GetFieldString data (Extract_Field ex)") simp_all
    with mp0(1) show "x \<in> set (concat (map (contrib_metric (Metric_Name m) data) mps))"
      by auto
  qed
  then show ?thesis by blast
qed

lemma contrib_other_source:
  assumes b: "list_all2 (built_metric compile) ms mps"
    and no: "\<And>m'. m' \<in> set ms \<Longrightarrow> Metric_Name m' \<noteq> M"
  shows "concat (map (contrib_metric M data) mps) = []"
proof -
  have "contrib_metric M data mp = []" if "mp \<in> set mps" for mp
  proof -
    from list_all2_right [OF b that] obtain m' where "m' \<in> set ms" "built_metric compile m' mp"
      by auto
    with no [of m'] show ?thesis
      by (auto simp: built_metric_def contrib_metric_def)
  qed
  then show ?thesis by simp
qed

lemma set_coerced_values:
  "set (coerced_values prs mt fld ls) =
     (\<Union>l\<in>set ls. case prs l of
                     None \<Rightarrow> {}
                   | Some d \<Rightarrow>
                       if Match mt (Some d)
                       then (case GetFieldString (Some d) fld of None \<Rightarrow> {} | Some v \<Rightarrow> {v})
                       else {})"
  by (induction ls)
    (auto simp: coerced_values_def split: option.splits if_splits)


text \<open>
  C6, as the code has it: take an agent built from a configuration in which the names of
  the metrics are distinct, and a metric of type set, with its extract field, of the
  source \<open>k\<close>. After any sequence of calls of \<^verbatim>\<open>ProcessLine\<close>, for any sources and lines,
  no call has failed, and \<open>Peek\<close> returns for the metric an integer: the number of
  distinct strings among the string-coerced values of the extract field, taken over the
  lines given to the source \<open>k\<close> that its parser parses, that the matcher of the metric
  accepts and whose field coerces to a string. Strings are lists of bytes, so distinct
  means different in some byte.
\<close>

theorem set_metric_cardinality:
  assumes new: "agent_New compile sources = Inr a0"
    and names: "distinct (map Metric_Name (concat (map Source_Metrics sources)))"
    and k: "k < length sources" and m: "m \<in> set (Source_Metrics (sources ! k))"
    and t: "Metric_Type m = ''set''" and e: "Metric_Extract m = Some ex"
  shows "\<exists>a prs mt. ProcessLines a0 events = Inr a \<and>
      parser_New compile (Source_Format (sources ! k)) (Source_Pattern (sources ! k)) = Inr prs \<and>
      matcher_New compile (Metric_Match m) = Inr mt \<and>
      Peek (aggregator a) (Metric_Name m) =
        Some (VInt (int (card (set (coerced_values prs mt (Extract_Field ex)
                                      (lines_for k events))))))"
proof -
  let ?M = "Metric_Name m"
  let ?all = "concat (map Source_Metrics sources)"
  from agent_New_built [OF new]
  have b: "list_all2 (built compile) sources (processors a0)"
    and agg: "aggregator a0 = register_all ?all aggregator_New"
    by auto
  from b have len: "length (processors a0) = length sources"
    by (simp add: list_all2_lengthD)
  have bi: "built compile (sources ! i) (processors a0 ! i)" if "i < length sources" for i
    using b that by (simp add: list_all2_nthD)
  let ?p = "processors a0 ! k"
  from bi [OF k] have prs: "parser_New compile (Source_Format (sources ! k))
        (Source_Pattern (sources ! k)) = Inr (parser ?p)"
    and bm: "list_all2 (built_metric compile) (Source_Metrics (sources ! k)) (sp_metrics ?p)"
    by (auto simp: built_def)
  from list_all2_left [OF bm m] obtain mp where "built_metric compile m mp" by auto
  then obtain mt where mt: "matcher_New compile (Metric_Match m) = Inr mt"
    by (auto simp: built_metric_def)
  have dk: "distinct (map Metric_Name (Source_Metrics (sources ! k)))"
    using distinct_concat_nth [of Metric_Name "map Source_Metrics sources" k] names k by simp
  have other: "Metric_Name m' \<noteq> ?M"
    if "i < length sources" "i \<noteq> k" "m' \<in> set (Source_Metrics (sources ! i))" for i m'
    using distinct_concat_disjoint [of Metric_Name "map Source_Metrics sources" i k m' m]
      names k m that by simp
  define g where "g l = (case parser ?p l of
        None \<Rightarrow> {}
      | Some d \<Rightarrow>
          if Match mt (Some d)
          then (case GetFieldString (Some d) (Extract_Field ex) of None \<Rightarrow> {} | Some v \<Rightarrow> {v})
          else {})" for l
  let ?sts = "map static (processors a0)"
  have ev: "set (contrib_event ?M ?sts ev) = (if fst ev = int k then g (snd ev) else {})" for ev
  proof (cases "fst ev \<ge> 0 \<and> fst ev < int (length sources)")
    case False
    with k show ?thesis
      by (auto simp: contrib_event_def len)
  next
    case True
    then have i: "nat (fst ev) < length sources" by auto
    show ?thesis
    proof (cases "fst ev = int k")
      case same: True
      have "set (contrib_line ?M (static ?p) (snd ev)) = g (snd ev)"
      proof (cases "parser ?p (snd ev)")
        case None
        then show ?thesis
          by (simp add: contrib_line_def static_def g_def)
      next
        case (Some d)
        with contrib_own_source [OF bm m dk t e mt, of "Some d"] show ?thesis
          by (simp add: contrib_line_def static_def g_def)
      qed
      with same k show ?thesis
        by (simp add: contrib_event_def len)
    next
      case False
      with True have ne: "nat (fst ev) \<noteq> k" by auto
      from bi [OF i] have "list_all2 (built_metric compile)
          (Source_Metrics (sources ! nat (fst ev))) (sp_metrics (processors a0 ! nat (fst ev)))"
        by (simp add: built_def)
      from contrib_other_source [OF this, of ?M] other [OF i ne]
      have "contrib_line ?M (static (processors a0 ! nat (fst ev))) (snd ev) = []"
        by (simp add: contrib_line_def static_def split: option.splits)
      with True False i show ?thesis
        by (simp add: contrib_event_def len)
    qed
  qed
  have vals: "set (concat (map (contrib_event ?M ?sts) events)) =
      set (coerced_values (parser ?p) mt (Extract_Field ex) (lines_for k events))"
    by (auto simp: ev set_coerced_values lines_for_def g_def split: if_splits)
  have alloc: "sets_allocated (aggregator a0)"
    by (simp add: agg sets_allocated_register_all sets_allocated_New)
  have "m \<in> set ?all"
    using k m by auto
  from register_all_new [OF _ this names, of aggregator_New] t
  have init: "set_of (aggregator a0) ?M = Some {||}"
    by (simp add: agg set_of_def aggregator_New_def)
  from ProcessLines_allocated [OF alloc, of events] init
  obtain a where a: "ProcessLines a0 events = Inr a"
    "set_of (aggregator a) ?M =
       Some (fset_of_list (concat (map (contrib_event ?M ?sts) events)))"
    by auto
  from set_of_Peek [OF a(2)] vals
  have "Peek (aggregator a) ?M =
      Some (VInt (int (card (set (coerced_values (parser ?p) mt (Extract_Field ex)
                                    (lines_for k events))))))"
    by (simp add: fcard.rep_eq fset_of_list.rep_eq)
  with a(1) prs mt show ?thesis by blast
qed


lemma s2_parse:
  \<open>JSONParser_Parse ''{"user_id":"a"}'' = Some [''user_id'' \<mapsto> VString ''a'']\<close>
  \<open>JSONParser_Parse ''{"user_id":"b"}'' = Some [''user_id'' \<mapsto> VString ''b'']\<close>
  \<open>JSONParser_Parse ''not json'' = None\<close>
  by (simp_all add: json_simps)

lemma s2_values:
  "coerced_values JSONParser_Parse
     \<lparr>field = [], equals = [], in_set = None, regex = None, contains = [], always = True\<rparr>
     ''user_id'' (lines_for (Suc 0) s2_events) = [''a'', ''b'', ''a'']"
  by (simp add: coerced_values_def lines_for_def s2_events_def s2_parse List.map_filter_simps
      Match_def GetFieldString_def GetField_def)

lemma s2_card:
  "card (set (coerced_values JSONParser_Parse
     \<lparr>field = [], equals = [], in_set = None, regex = None, contains = [], always = True\<rparr>
     ''user_id'' (lines_for (Suc 0) s2_events))) = 2"
  by (simp add: s2_values card_insert_if)

theorem set_metric_cardinality_witness:
  "\<exists>a0 a. agent_New example_compile [s1_source, s2_source] = Inr a0 \<and>
     distinct (map Metric_Name (concat (map Source_Metrics [s1_source, s2_source]))) \<and>
     ProcessLines a0 s2_events = Inr a \<and>
     Peek (aggregator a) ''unique_users'' = Some (VInt 2)"
proof -
  let ?m = "\<lparr>Metric_Name = ''unique_users'', Metric_Type = ''set'', Metric_Match = None,
          Metric_Extract = Some \<lparr>Extract_Field = ''user_id''\<rparr>\<rparr>"
  obtain a0 where a0: "agent_New example_compile [s1_source, s2_source] = Inr a0"
    by (simp add: agent_New_def newSourceProcessor_def parser_New_def s1_source_def
        s2_source_def matcher_New_def)
  have names: "distinct (map Metric_Name (concat (map Source_Metrics [s1_source, s2_source])))"
    by (simp add: s1_source_def s2_source_def)
  have k: "(1::nat) < length [s1_source, s2_source]"
    and m: "?m \<in> set (Source_Metrics ([s1_source, s2_source] ! 1))"
    and t: "Metric_Type ?m = ''set''"
    and e: "Metric_Extract ?m = Some \<lparr>Extract_Field = ''user_id''\<rparr>"
    by (simp_all add: s2_source_def)
  from set_metric_cardinality [OF a0 names k m t e, of s2_events]
  obtain a where "ProcessLines a0 s2_events = Inr a"
    "Peek (aggregator a) ''unique_users'' = Some (VInt 2)"
    by (auto simp: parser_New_def s2_source_def matcher_New_def s2_card)
  with a0 names show ?thesis by blast
qed

lemma dup_agent:
  "agent_New example_compile [dup_source] =
     Inr \<lparr>aggregator = Register aggregator_New ''m'' ''counter'',
          processors =
            [\<lparr>source = dup_source, parser = JSONParser_Parse,
              sp_metrics =
                [\<lparr>cfg = Source_Metrics dup_source ! 0, matcher = always_matcher\<rparr>,
                 \<lparr>cfg = Source_Metrics dup_source ! 1, matcher = always_matcher\<rparr>],
              linesParsed = 0, linesMatched = 0, parseErrors = 0\<rparr>]\<rparr>"
  by (simp add: agent_New_def newSourceProcessor_def parser_New_def dup_source_def
      matcher_New_def always_matcher_def Register_def aggregator_New_def)

lemma dup_values:
  "coerced_values JSONParser_Parse always_matcher ''user_id'' (lines_for 0 dup_events) =
     [''a'', ''b'', ''a'']"
  by (simp add: coerced_values_def lines_for_def dup_events_def s2_parse List.map_filter_simps
      Match_def always_matcher_def GetFieldString_def GetField_def)

text \<open>
  Without distinct names the property fails. The construction of the agent accepts the
  configuration \<open>dup_source\<close>, where the name \<open>m\<close> is first a counter and then a set of
  the field \<open>user_id\<close>; the first registration decides the type. After three lines whose
  coerced values are \<open>a\<close>, \<open>b\<close>, \<open>a\<close>, two distinct strings, \<open>Peek\<close> shows for \<open>m\<close> the
  float 3.0 of the counter, not the integer 2.
\<close>

theorem set_metric_repeated_name_counterexample:
  "Metric_Type (Source_Metrics dup_source ! 1) = ''set'' \<and>
   Metric_Name (Source_Metrics dup_source ! 1) = ''m'' \<and>
   Metric_Extract (Source_Metrics dup_source ! 1) = Some \<lparr>Extract_Field = ''user_id''\<rparr> \<and>
   parser_New example_compile (Source_Format dup_source) (Source_Pattern dup_source) =
     Inr JSONParser_Parse \<and>
   matcher_New example_compile (Metric_Match (Source_Metrics dup_source ! 1)) =
     Inr always_matcher \<and>
   card (set (coerced_values JSONParser_Parse always_matcher ''user_id''
                (lines_for 0 dup_events))) = 2 \<and>
   peek_name example_compile [dup_source] dup_events ''m'' = Some (VFloat64 3) \<and>
   peek_name example_compile [dup_source] dup_events ''m'' \<noteq> Some (VInt 2)"
proof -
  have "peek_name example_compile [dup_source] dup_events ''m'' = Some (VFloat64 3)"
    apply (simp only: peek_name_def peek_after_def dup_agent sum.case)
    apply (simp add: dup_events_def ProcessLine_def processLine_def s2_parse dup_source_def
        Match_def always_matcher_def update_metric_def GetFieldString_def GetField_def
        Peek_def Inc_def AddToSet_def Register_def aggregator_New_def peek_entry_def)
    done
  moreover have "card (set (coerced_values JSONParser_Parse always_matcher ''user_id''
                (lines_for 0 dup_events))) = 2"
    by (simp add: dup_values card_insert_if)
  ultimately show ?thesis
    by (simp add: dup_source_def parser_New_def matcher_New_def always_matcher_def)
qed

section \<open>Properties of the reading of lines\<close>

lemma Scan_loop_newline:
  "CHR 0x0A \<notin> set l \<Longrightarrow> length (buf s) + length l \<le> 1048576 \<Longrightarrow>
   pending (reader s) = l @ CHR 0x0A # rest \<Longrightarrow>
   \<exists>s'. Scan_loop s = (True, s') \<and> line s' = buf s @ l \<and>
        pending (reader s') = rest \<and> final (reader s') = final (reader s) \<and> err s' = err s"
proof (induction l arbitrary: s)
  case Nil
  then show ?case
    by (subst Scan_loop.simps) (simp add: Read_def)
next
  case (Cons b bs)
  let ?s1 = "s\<lparr>reader := (reader s)\<lparr>pending := bs @ CHR 0x0A # rest\<rparr>, buf := buf s @ [b]\<rparr>"
  from Cons.prems have nb: "b \<noteq> CHR 0x0A" by auto
  from Cons.prems nb have step: "Scan_loop s = Scan_loop ?s1"
    by (subst Scan_loop.simps) (simp add: Read_def)
  from Cons.prems have "\<exists>s'. Scan_loop ?s1 = (True, s') \<and> line s' = buf ?s1 @ bs \<and>
        pending (reader s') = rest \<and> final (reader s') = final (reader ?s1) \<and> err s' = err ?s1"
    by (intro Cons.IH) simp_all
  then show ?case
    by (simp add: step)
qed

lemma Scan_loop_eof:
  "CHR 0x0A \<notin> set l \<Longrightarrow> length (buf s) + length l \<le> 1048576 \<Longrightarrow>
   pending (reader s) = l \<Longrightarrow> final (reader s) = EOF \<Longrightarrow> buf s @ l \<noteq> [] \<Longrightarrow>
   \<exists>s'. Scan_loop s = (True, s') \<and> line s' = buf s @ l \<and>
        pending (reader s') = [] \<and> final (reader s') = EOF \<and> err s' = err s"
proof (induction l arbitrary: s)
  case Nil
  then show ?case
    by (subst Scan_loop.simps) (simp add: Read_def)
next
  case (Cons b bs)
  let ?s1 = "s\<lparr>reader := (reader s)\<lparr>pending := bs\<rparr>, buf := buf s @ [b]\<rparr>"
  from Cons.prems have nb: "b \<noteq> CHR 0x0A" by auto
  from Cons.prems nb have step: "Scan_loop s = Scan_loop ?s1"
    by (subst Scan_loop.simps) (simp add: Read_def)
  from Cons.prems have "\<exists>s'. Scan_loop ?s1 = (True, s') \<and> line s' = buf ?s1 @ bs \<and>
        pending (reader s') = [] \<and> final (reader s') = EOF \<and> err s' = err ?s1"
    by (intro Cons.IH) simp_all
  then show ?case
    by (simp add: step)
qed

lemma Scan_loop_too_long:
  "CHR 0x0A \<notin> set l \<Longrightarrow> length (buf s) + length l > 1048576 \<Longrightarrow>
   length (buf s) \<le> 1048576 \<Longrightarrow> pending (reader s) = l @ rest \<Longrightarrow>
   \<exists>s'. Scan_loop s = (False, s') \<and> err s' = Some LineTooLong"
proof (induction l arbitrary: s)
  case Nil
  then show ?case by simp
next
  case (Cons b bs)
  from Cons.prems have nb: "b \<noteq> CHR 0x0A" by auto
  show ?case
  proof (cases "length (buf s) = 1048576")
    case True
    with Cons.prems nb show ?thesis
      by (subst Scan_loop.simps) (simp add: Read_def)
  next
    case False
    let ?s1 = "s\<lparr>reader := (reader s)\<lparr>pending := bs @ rest\<rparr>, buf := buf s @ [b]\<rparr>"
    from False Cons.prems nb have step: "Scan_loop s = Scan_loop ?s1"
      by (subst Scan_loop.simps) (simp add: Read_def)
    from False Cons.prems have "\<exists>s'. Scan_loop ?s1 = (False, s') \<and> err s' = Some LineTooLong"
      by (intro Cons.IH) simp_all
    then show ?thesis
      by (simp add: step)
  qed
qed

lemma Scan_newline:
  assumes "CHR 0x0A \<notin> set l" "length l \<le> 1048576" "pending (reader s) = l @ CHR 0x0A # rest"
  shows "\<exists>s'. Scan s = (True, s') \<and> line s' = l \<and> pending (reader s') = rest \<and>
           final (reader s') = final (reader s) \<and> err s' = err s"
  using Scan_loop_newline [of l "s\<lparr>line := [], buf := []\<rparr>" rest] assms
  by (simp add: Scan_def)

lemma Scan_eof_line:
  assumes "CHR 0x0A \<notin> set l" "length l \<le> 1048576" "pending (reader s) = l"
    "final (reader s) = EOF" "l \<noteq> []"
  shows "\<exists>s'. Scan s = (True, s') \<and> line s' = l \<and> pending (reader s') = [] \<and>
           final (reader s') = EOF \<and> err s' = err s"
  using Scan_loop_eof [of l "s\<lparr>line := [], buf := []\<rparr>"] assms
  by (simp add: Scan_def)

lemma Scan_too_long:
  assumes "CHR 0x0A \<notin> set l" "length l > 1048576" "pending (reader s) = l @ rest"
  shows "\<exists>s'. Scan s = (False, s') \<and> err s' = Some LineTooLong"
  using Scan_loop_too_long [of l "s\<lparr>line := [], buf := []\<rparr>" rest] assms
  by (simp add: Scan_def)

lemma Scan_eof:
  assumes "pending (reader s) = []" "final (reader s) = EOF"
  shows "\<exists>s'. Scan s = (False, s') \<and> err s' = err s"
  using assms by (simp add: Scan_def Scan_loop.simps Read_def)


lemma ProcessReader_loop_lines:
  assumes "\<forall>l\<in>set ls. CHR 0x0A \<notin> set l" "CHR 0x0A \<notin> set rest"
    "pending (reader s) = text_of ls @ rest" "final (reader s) = EOF" "err s = None"
  shows "\<exists>s'. ProcessReader_loop handler 0 s count h =
           (s', count + int (length (takeWhile (\<lambda>l. length l \<le> 1048576) (with_last ls rest))),
            fold handler (takeWhile (\<lambda>l. length l \<le> 1048576) (with_last ls rest)) h) \<and>
         err s' = (if \<forall>l\<in>set (with_last ls rest). length l \<le> 1048576 then None
                   else Some LineTooLong)"
  using assms
proof (induction ls arbitrary: s count h)
  case Nil
  show ?case
  proof (cases "rest = []")
    case True
    with Nil.prems Scan_eof [of s] show ?thesis
      by (subst ProcessReader_loop.simps) (auto simp: text_of_def with_last_def)
  next
    case False
    show ?thesis
    proof (cases "length rest \<le> 1048576")
      case True
      with False Nil.prems Scan_eof_line [of rest s]
      obtain s1 where s1: "Scan s = (True, s1)" "line s1 = rest" "pending (reader s1) = []"
        "final (reader s1) = EOF" "err s1 = None"
        by (auto simp: text_of_def)
      with Scan_eof [of s1] obtain s2 where s2: "Scan s1 = (False, s2)" "err s2 = None"
        by auto
      have "ProcessReader_loop handler 0 s count h =
              ProcessReader_loop handler 0 s1 (count + 1) (handler rest h)"
        by (subst ProcessReader_loop.simps) (simp add: s1)
      also have "\<dots> = (s2, count + 1, handler rest h)"
        by (subst ProcessReader_loop.simps) (simp add: s2)
      finally show ?thesis
        using True False s2 by (simp add: with_last_def)
    next
      case long: False
      with Nil.prems Scan_too_long [of rest s "[]"]
      obtain s1 where s1: "Scan s = (False, s1)" "err s1 = Some LineTooLong"
        by (auto simp: text_of_def)
      have "ProcessReader_loop handler 0 s count h = (s1, count, h)"
        by (subst ProcessReader_loop.simps) (simp add: s1)
      then show ?thesis
        using long False s1 by (simp add: with_last_def)
    qed
  qed
next
  case (Cons l ls)
  have pend: "pending (reader s) = l @ CHR 0x0A # (text_of ls @ rest)"
    using Cons.prems by (simp add: text_of_def)
  show ?case
  proof (cases "length l \<le> 1048576")
    case True
    with Cons.prems pend Scan_newline [of l s "text_of ls @ rest"]
    obtain s1 where s1: "Scan s = (True, s1)" "line s1 = l"
      "pending (reader s1) = text_of ls @ rest" "final (reader s1) = EOF" "err s1 = None"
      by auto
    have step: "ProcessReader_loop handler 0 s count h =
            ProcessReader_loop handler 0 s1 (count + 1) (handler l h)"
      by (subst ProcessReader_loop.simps) (simp add: s1)
    from Cons.IH [of s1 "count + 1" "handler l h"] Cons.prems s1
    obtain s' where "ProcessReader_loop handler 0 s1 (count + 1) (handler l h) =
           (s', count + 1 + int (length (takeWhile (\<lambda>l. length l \<le> 1048576) (with_last ls rest))),
            fold handler (takeWhile (\<lambda>l. length l \<le> 1048576) (with_last ls rest)) (handler l h))"
      "err s' = (if \<forall>l\<in>set (with_last ls rest). length l \<le> 1048576 then None
                   else Some LineTooLong)"
      by auto
    with step True show ?thesis
      by (auto simp: with_last_def)
  next
    case False
    with Cons.prems pend Scan_too_long [of l s "CHR 0x0A # (text_of ls @ rest)"]
    obtain s1 where s1: "Scan s = (False, s1)" "err s1 = Some LineTooLong"
      by auto
    have "ProcessReader_loop handler 0 s count h = (s1, count, h)"
      by (subst ProcessReader_loop.simps) (simp add: s1)
    then show ?thesis
      using False s1 by (simp add: with_last_def)
  qed
qed

text \<open>
  C8, as the code has it: for a text of lines, the last one possibly without newline,
  read without a cap on the number of lines, \<open>ProcessReader\<close> gives the handler, in order
  and whole, the lines before the first line longer than 1048576 bytes, and no line after
  it; it counts them; and it fails, with the error of a line too long, exactly when there
  is a line longer than 1048576 bytes. So when every line has at most 1048576 bytes, all
  lines are delivered and there is no error.
\<close>

theorem ProcessReader_line_limit:
  "\<forall>l\<in>set ls. CHR 0x0A \<notin> set l \<Longrightarrow> CHR 0x0A \<notin> set rest \<Longrightarrow>
   ProcessReader \<lparr>pending = text_of ls @ rest, final = EOF\<rparr> handler 0 h0 =
     (int (length (takeWhile (\<lambda>l. length l \<le> 1048576) (with_last ls rest))),
      (if \<forall>l\<in>set (with_last ls rest). length l \<le> 1048576 then None
       else Some (Wrapped ''reading'' LineTooLong)),
      fold handler (takeWhile (\<lambda>l. length l \<le> 1048576) (with_last ls rest)) h0)"
  using ProcessReader_loop_lines
    [of ls rest "NewLineScanner \<lparr>pending = text_of ls @ rest, final = EOF\<rparr>" handler 0 h0]
  by (auto simp: ProcessReader_def NewLineScanner_def)


theorem ProcessReader_line_limit_witness:
  "CHR 0x0A \<notin> set (replicate 1048576 (CHR ''x'')) \<and>
   length (replicate 1048576 (CHR ''x'')) = 1024 * 1024 \<and>
   ProcessReader
     \<lparr>pending = text_of [replicate 1048576 (CHR ''x''), ''short''] @ ''tail'', final = EOF\<rparr>
     collect 0 [] =
     (3, None, [replicate 1048576 (CHR ''x''), ''short'', ''tail'']) \<and>
   length (replicate 1048577 (CHR ''x'')) = 1024 * 1024 + 1 \<and>
   ProcessReader
     \<lparr>pending = text_of [''ok'', replicate 1048577 (CHR ''x''), ''after''] @ [], final = EOF\<rparr>
     collect 0 [] =
     (1, Some (Wrapped ''reading'' LineTooLong), [''ok''])"
proof -
  have a: "\<forall>l\<in>set [replicate 1048576 (CHR ''x''), ''short'']. CHR 0x0A \<notin> set l"
    and b: "\<forall>l\<in>set [''ok'', replicate 1048577 (CHR ''x''), ''after'']. CHR 0x0A \<notin> set l"
    and c: "CHR 0x0A \<notin> set ''tail''" "CHR 0x0A \<notin> set []"
    by simp_all
  show ?thesis
    using ProcessReader_line_limit [OF a c(1), of collect "[]"]
      ProcessReader_line_limit [OF b c(2), of collect "[]"] a b
    by (simp add: with_last_def collect_def)
qed

text \<open>
  A line of at most 1048576 bytes is not delivered when it comes after a longer one: the
  reading ends at the line that is too long.
\<close>

theorem ProcessReader_after_long_line_counterexample:
  "length ''after'' \<le> 1024 * 1024 \<and>
   ProcessReader
     \<lparr>pending = text_of [replicate 1048577 (CHR ''x''), ''after''], final = EOF\<rparr>
     collect 0 [] =
     (0, Some (Wrapped ''reading'' LineTooLong), [])"
proof -
  have a: "\<forall>l\<in>set [replicate 1048577 (CHR ''x''), ''after'']. CHR 0x0A \<notin> set l"
    and b: "CHR 0x0A \<notin> set []"
    by simp_all
  from ProcessReader_loop_lines [OF a b, of
      "NewLineScanner \<lparr>pending = text_of [replicate 1048577 (CHR ''x''), ''after''], final = EOF\<rparr>"
      collect 0 "[]"]
  show ?thesis
    by (auto simp: ProcessReader_def NewLineScanner_def with_last_def)
qed

section \<open>Properties of the detection of the deployment mode\<close>

text \<open>
  C9, as the code has it: \<open>detectDeploymentMode\<close> returns \<open>kubernetes\<close> when the lookup
  of the environment reports the Kubernetes service-host variable, and \<open>standalone\<close>
  otherwise, whatever files exist and whatever the cgroup is: the probes of the marker
  file and of the cgroup always answer no.
\<close>

theorem detectDeploymentMode_probes:
  "detectDeploymentMode lookup h =
     (if snd (lookup ''KUBERNETES_SERVICE_HOST'') then ''kubernetes'' else ''standalone'')"
  by (simp add: detectDeploymentMode_def fileExists_def isInContainer_def)

theorem detectDeploymentMode_probes_witness:
  "detectDeploymentMode (os_LookupEnv docker_host) docker_host = ''standalone'' \<and>
   detectDeploymentMode
     (os_LookupEnv (docker_host\<lparr>env := [''KUBERNETES_SERVICE_HOST'' \<mapsto> ''10.0.0.1'']\<rparr>))
     (docker_host\<lparr>env := [''KUBERNETES_SERVICE_HOST'' \<mapsto> ''10.0.0.1'']\<rparr>) = ''kubernetes''"
  using detectDeploymentMode_probes [of "os_LookupEnv docker_host" docker_host]
    detectDeploymentMode_probes
      [of "os_LookupEnv (docker_host\<lparr>env := [''KUBERNETES_SERVICE_HOST'' \<mapsto> ''10.0.0.1'']\<rparr>)"
          "docker_host\<lparr>env := [''KUBERNETES_SERVICE_HOST'' \<mapsto> ''10.0.0.1'']\<rparr>"]
  by (simp add: os_LookupEnv_def docker_host_def)

text \<open>
  On a machine without the Kubernetes variable where \<^verbatim>\<open>/.dockerenv\<close> exists, the
  specification selects \<open>docker\<close>; the code returns \<open>standalone\<close>, with the function that
  the variable \<^verbatim>\<open>lookupEnv\<close> holds at start as with \<^verbatim>\<open>os.LookupEnv\<close>.
\<close>

theorem detectDeploymentMode_docker_counterexample:
  "spec_deployment_mode docker_host = ''docker'' \<and>
   detectDeploymentMode (lookupEnv docker_host) docker_host \<noteq> spec_deployment_mode docker_host \<and>
   detectDeploymentMode (lookupEnv docker_host) docker_host = ''standalone'' \<and>
   detectDeploymentMode (os_LookupEnv docker_host) docker_host = ''standalone''"
  by (simp add: spec_deployment_mode_def detectDeploymentMode_def docker_host_def
      lookupEnv_def os_LookupEnv_def fileExists_def isInContainer_def)

end
